theory Spec2Isabelle
  imports Complex_Main "HOL-Library.Extended_Nat"
begin

section \<open>Numbers and motion parameters\<close>

text \<open>
  A row of the arrays \<^verbatim>\<open>_raw_transforms\<close>, \<^verbatim>\<open>_trajectory\<close>, \<^verbatim>\<open>trajectory\<close>,
  \<^verbatim>\<open>smoothed_trajectory\<close> and \<^verbatim>\<open>transforms\<close> is the Python list \<^verbatim>\<open>[dx, dy, da]\<close>:
  always three numbers. It is a triple here, and the numpy operations on the N x 3 arrays
  are the componentwise operations on lists of triples. Python floats are read as real
  numbers: rounding is not part of the model.
\<close>

type_synonym vec3 = "real \<times> real \<times> real"

fun add3 :: "vec3 \<Rightarrow> vec3 \<Rightarrow> vec3" where
  "add3 (a, b, c) (x, y, z) = (a + x, b + y, c + z)"

fun sub3 :: "vec3 \<Rightarrow> vec3 \<Rightarrow> vec3" where
  "sub3 (a, b, c) (x, y, z) = (a - x, b - y, c - z)"

definition sum3 :: "vec3 list \<Rightarrow> vec3" where
  "sum3 xs = (sum_list (map fst xs), sum_list (map (fst \<circ> snd) xs), sum_list (map (snd \<circ> snd) xs))"

definition average3 :: "vec3 list \<Rightarrow> vec3" where
  "average3 xs = (case sum3 xs of (a, b, c) \<Rightarrow>
     (a / real (length xs), b / real (length xs), c / real (length xs)))"

section \<open>Trajectory accumulator\<close>

text \<open>
  Lines 128 to 132 of \<^verbatim>\<open>_gen_next_raw_transform\<close>: the first row of \<^verbatim>\<open>_trajectory\<close> is the
  first delta, every later row is the last row plus the new delta.
\<close>

definition accumulate :: "vec3 list \<Rightarrow> vec3 \<Rightarrow> vec3 list" where
  "accumulate T ti = (if T = [] then T @ [ti] else T @ [add3 (last T) ti])"

section \<open>Windowed rolling smoother\<close>

text \<open>
  Modelled from the spec: \<^verbatim>\<open>bfill_rolling_mean\<close> is imported from \<^verbatim>\<open>vidstab/utils.py\<close>,
  which is not among the sources. Section 4.3 of the specification describes it in two
  stages, and so does the model: a trailing rolling mean that is undefined where fewer
  than \<open>w\<close> samples are available, then a back-fill that gives every undefined entry the
  first defined value after it. The specification gives the smoother no result for a
  trajectory shorter than the window; there no entry is ever defined and the model returns
  \<open>None\<close>.
\<close>

definition window :: "'a list \<Rightarrow> nat \<Rightarrow> nat \<Rightarrow> 'a list" where
  "window T w i = take w (drop (i + 1 - w) T)"

definition rolling_mean :: "vec3 list \<Rightarrow> nat \<Rightarrow> vec3 option list" where
  "rolling_mean T w =
     map (\<lambda>i. if 1 \<le> w \<and> w - 1 \<le> i then Some (average3 (window T w i)) else None)
       [0..<length T]"

fun bfill :: "'a option list \<Rightarrow> 'a option list" where
  "bfill [] = []"
| "bfill (Some x # xs) = Some x # bfill xs"
| "bfill (None # xs) = (case bfill xs of [] \<Rightarrow> [None] | y # ys \<Rightarrow> y # y # ys)"

text \<open>Modelled from the spec: the smoother of section 4.3 as a whole, defined where the
  back-fill leaves no entry undefined.\<close>

definition bfill_rolling_mean :: "vec3 list \<Rightarrow> nat \<Rightarrow> vec3 list option" where
  "bfill_rolling_mean T w = those (bfill (rolling_mean T w))"

section \<open>Frames\<close>

text \<open>
  The pixel operations belong to OpenCV and numpy. A frame is kept as the term that built
  it: a decoded source frame, or the result of one of the calls the class makes. Only the
  shape of a frame is computed, the way the library documents it.
\<close>

datatype border_mode = BORDER_CONSTANT | BORDER_REFLECT | BORDER_REPLICATE

record affine =
  m00 :: real
  m01 :: real
  m02 :: real
  m10 :: real
  m11 :: real
  m12 :: real

datatype frame =
    Decoded nat nat nat
  | CvtColor frame
  | CopyMakeBorder frame int int int int border_mode
  | WarpAffine frame affine "int \<times> int" border_mode
  | Crop frame int int int int
  | Layered frame frame

text \<open>
  \<open>Decoded h w c\<close> is a frame read from the source: height, width and a code for its
  content. \<open>CopyMakeBorder f top bottom left right mode\<close>, \<open>WarpAffine f M (width, height) mode\<close>
  and \<open>CvtColor f\<close> are the OpenCV calls, \<open>Crop f a b c d\<close> is the numpy slice
  \<^verbatim>\<open>f[a:b, c:d]\<close>, and \<open>Layered fg bg\<close> stands for what a layering function of the
  caller returns for a foreground and a background.
\<close>

definition slice_index :: "int \<Rightarrow> int \<Rightarrow> int" where
  "slice_index n i = (if i < 0 then max 0 (n + i) else min n i)"

definition slice_len :: "int \<Rightarrow> int \<Rightarrow> int \<Rightarrow> int" where
  "slice_len n a b = max 0 (slice_index n b - slice_index n a)"

fun shape :: "frame \<Rightarrow> int \<times> int" where
  "shape (Decoded h w c) = (int h, int w)"
| "shape (CvtColor f) = shape f"
| "shape (CopyMakeBorder f t b l r mode) = (fst (shape f) + t + b, snd (shape f) + l + r)"
| "shape (WarpAffine f M dsize mode) = (snd dsize, fst dsize)"
| "shape (Crop f a b c d) = (slice_len (fst (shape f)) a b, slice_len (snd (shape f)) c d)"
| "shape (Layered fg bg) = shape fg"

section \<open>Collaborators\<close>

text \<open>
  The keypoint detector (with the extraction of the points), the optical flow tracker and
  the rigid transform fit are OpenCV's; the smoother is \<^verbatim>\<open>bfill_rolling_mean\<close> of
  \<^verbatim>\<open>vidstab/utils.py\<close>. The class only calls them, so the model takes them as
  parameters. \<open>estimateRigidTransform\<close> returns \<open>None\<close> when it finds no transform.
\<close>

type_synonym point = "real \<times> real"

record deps =
  detect :: "frame \<Rightarrow> point list"
  calcOpticalFlowPyrLK :: "frame \<Rightarrow> frame \<Rightarrow> point list \<Rightarrow> point list \<times> bool list"
  estimateRigidTransform :: "point list \<Rightarrow> point list \<Rightarrow> affine option"
  smoother :: "vec3 list \<Rightarrow> nat \<Rightarrow> vec3 list option"

section \<open>The VidStab object\<close>

text \<open>A \<^verbatim>\<open>collections.deque\<close> with its \<^verbatim>\<open>maxlen\<close>: appending to a full deque drops the
  leftmost item, and popping from an empty one raises.\<close>

record 'a deque =
  maxlen :: "nat option"
  items :: "'a list"

definition new_deque :: "nat option \<Rightarrow> 'a deque" where
  "new_deque m = \<lparr>maxlen = m, items = []\<rparr>"

definition deque_append :: "'a deque \<Rightarrow> 'a \<Rightarrow> 'a deque" where
  "deque_append q x =
     (case maxlen q of
        None \<Rightarrow> q\<lparr>items := items q @ [x]\<rparr>
      | Some m \<Rightarrow>
          if m = 0 then q
          else if length (items q) < m then q\<lparr>items := items q @ [x]\<rparr>
          else q\<lparr>items := tl (items q) @ [x]\<rparr>)"

definition deque_popleft :: "'a deque \<Rightarrow> ('a \<times> 'a deque) option" where
  "deque_popleft q = (case items q of [] \<Rightarrow> None | x # xs \<Rightarrow> Some (x, q\<lparr>items := xs\<rparr>))"

record sink =
  sink_shape :: "int \<times> int"
  written :: "frame list"

text \<open>
  The fields of the object. \<open>priv_smoothing_window\<close>, \<open>priv_raw_transforms\<close> and
  \<open>priv_trajectory\<close> are the attributes \<^verbatim>\<open>_smoothing_window\<close>, \<^verbatim>\<open>_raw_transforms\<close> and
  \<^verbatim>\<open>_trajectory\<close>. \<open>vid_cap\<close> holds the frames the source has not delivered yet, and
  \<open>writer\<close> the frames written so far.
\<close>

record vidstab =
  priv_smoothing_window :: "nat option"
  priv_raw_transforms :: "vec3 list"
  priv_trajectory :: "vec3 list"
  trajectory :: "vec3 list option"
  smoothed_trajectory :: "vec3 list option"
  transforms :: "vec3 list option"
  frame_queue :: "frame deque"
  frame_queue_inds :: "nat deque"
  prev_kps :: "point list option"
  prev_gray :: "frame option"
  vid_cap :: "frame list"
  writer :: "sink option"

text \<open>The exceptions a call can end with; a result is either the exception together with
  the object as it stands when the exception is raised, or the value returned.
  \<open>SmootherUndefined\<close> stands for a smoother call that has no result.\<close>

datatype error =
    ValueError string
  | KeyError
  | IndexError
  | AttributeError
  | TypeError
  | cv2_error
  | SmootherUndefined

type_synonym 'a result = "(error \<times> vidstab) + 'a"

text \<open>The constructor, lines 78 to 89; the deques are created by the entry points.\<close>

definition init_vidstab :: vidstab where
  "init_vidstab = \<lparr>priv_smoothing_window = None, priv_raw_transforms = [], priv_trajectory = [],
     trajectory = None, smoothed_trajectory = None, transforms = None,
     frame_queue = new_deque None, frame_queue_inds = new_deque None,
     prev_kps = None, prev_gray = None, vid_cap = [], writer = None\<rparr>"

definition read_frame :: "vidstab \<Rightarrow> frame option \<times> vidstab" where
  "read_frame s = (case vid_cap s of [] \<Rightarrow> (None, s) | f # fs \<Rightarrow> (Some f, s\<lparr>vid_cap := fs\<rparr>))"

section \<open>Motion estimation adapter\<close>

text \<open>\<^verbatim>\<open>numpy.arctan2\<close> on real numbers.\<close>

definition arctan2 :: "real \<Rightarrow> real \<Rightarrow> real" where
  "arctan2 y x =
     (if 0 < x then arctan (y / x)
      else if x < 0 \<and> 0 \<le> y then arctan (y / x) + pi
      else if x < 0 then arctan (y / x) - pi
      else if 0 < y then pi / 2
      else if y < 0 then - (pi / 2)
      else 0)"

text \<open>Lines 99 to 105: the points of both frames at the indices the tracker matched.
  An index beyond either list raises (\<open>None\<close>).\<close>

fun store_matched ::
  "point list \<Rightarrow> point list \<Rightarrow> (nat \<times> bool) list \<Rightarrow> point list \<times> point list \<Rightarrow>
   (point list \<times> point list) option" where
  "store_matched pk ck [] acc = Some acc"
| "store_matched pk ck ((i, matched) # es) acc =
     (if matched then
        (if i < length pk \<and> i < length ck
         then store_matched pk ck es (fst acc @ [pk ! i], snd acc @ [ck ! i])
         else None)
      else store_matched pk ck es acc)"

text \<open>Lines 110 to 120: the delta read off the fitted matrix, or zero when there is none.\<close>

definition transform_params :: "affine option \<Rightarrow> vec3" where
  "transform_params transform =
     (case transform of
        Some t \<Rightarrow> (m02 t, m12 t, arctan2 (m10 t) (m00 t))
      | None \<Rightarrow> (0, 0, 0))"

text \<open>\<^verbatim>\<open>_gen_next_raw_transform\<close>, lines 91 to 134. The newest frame of the queue is
  tracked against the previous gray frame and its keypoints; OpenCV fails when the
  detector state has not been seeded.\<close>

definition priv_gen_next_raw_transform :: "deps \<Rightarrow> vidstab \<Rightarrow> vidstab result" where
  "priv_gen_next_raw_transform D s =
     (case items (frame_queue s) of
        [] \<Rightarrow> Inl (IndexError, s)
      | f # fs \<Rightarrow>
          (let current_frame_gray = CvtColor (last (f # fs)) in
           case (prev_gray s, prev_kps s) of
             (Some pg, Some pk) \<Rightarrow>
               (case calcOpticalFlowPyrLK D pg current_frame_gray pk of
                  (cur_kps, status) \<Rightarrow>
                    (case store_matched pk cur_kps (List.enumerate 0 status) ([], []) of
                       None \<Rightarrow> Inl (IndexError, s)
                     | Some (prev_matched_kp, cur_matched_kp) \<Rightarrow>
                         (let transform_i =
                                transform_params
                                  (estimateRigidTransform D prev_matched_kp cur_matched_kp)
                          in Inr (s\<lparr>prev_gray := Some current_frame_gray,
                                    prev_kps := Some (detect D current_frame_gray),
                                    priv_raw_transforms := priv_raw_transforms s @ [transform_i],
                                    priv_trajectory :=
                                      accumulate (priv_trajectory s) transform_i\<rparr>))))
           | _ \<Rightarrow> Inl (cv2_error, s)))"

section \<open>Compensation transforms\<close>

text \<open>
  \<^verbatim>\<open>_gen_transforms\<close>, lines 314 to 317. The sum and the difference of the arrays are
  elementwise; numpy refuses arrays of different lengths (the broadcast of a one-row
  array, which the arrays of a run never are, is not modelled).
\<close>

definition priv_gen_transforms :: "deps \<Rightarrow> nat \<Rightarrow> vidstab \<Rightarrow> vidstab result" where
  "priv_gen_transforms D smoothing_window s =
     (let s1 = s\<lparr>trajectory := Some (priv_trajectory s)\<rparr> in
      case smoother D (priv_trajectory s) smoothing_window of
        None \<Rightarrow> Inl (SmootherUndefined, s1)
      | Some S \<Rightarrow>
          (let s2 = s1\<lparr>smoothed_trajectory := Some S\<rparr> in
           if length S = length (priv_trajectory s) \<and>
              length (priv_raw_transforms s) = length (priv_trajectory s)
           then Inr (s2\<lparr>transforms :=
                  Some (map2 add3 (priv_raw_transforms s) (map2 sub3 S (priv_trajectory s)))\<rparr>)
           else Inl (ValueError ''operands could not be broadcast together'', s2)))"

section \<open>Trajectory initialisation\<close>

text \<open>One pass of the loop of \<^verbatim>\<open>_init_trajectory\<close> after a frame was read (lines 177 to
  187); the result says whether the loop breaks. The progress bar has no part in the
  model.\<close>

definition next_ind :: "nat deque \<Rightarrow> nat" where
  "next_ind q = (case items q of [] \<Rightarrow> 0 | i # is \<Rightarrow> last (i # is) + 1)"

definition init_body ::
  "deps \<Rightarrow> nat \<Rightarrow> enat \<Rightarrow> bool \<Rightarrow> frame \<Rightarrow> vidstab \<Rightarrow> (bool \<times> vidstab) result" where
  "init_body D smoothing_window max_frames gen_all cur_frame s =
     (let s1 = s\<lparr>frame_queue := deque_append (frame_queue s) cur_frame\<rparr>;
          s2 = s1\<lparr>frame_queue_inds :=
                    deque_append (frame_queue_inds s1) (next_ind (frame_queue_inds s1))\<rparr>
      in case priv_gen_next_raw_transform D s2 of
           Inl e \<Rightarrow> Inl e
         | Inr s3 \<Rightarrow>
             if gen_all then Inr (False, s3)
             else (case items (frame_queue_inds s3) of
                     [] \<Rightarrow> Inl (IndexError, s3)
                   | i # is \<Rightarrow>
                       Inr (max_frames \<le> enat (last (i # is) + 1) \<or>
                            smoothing_window \<le> last (i # is) + 1, s3)))"

lemma priv_gen_next_raw_transform_keeps:
  "priv_gen_next_raw_transform D s = Inr s' \<Longrightarrow>
     vid_cap s' = vid_cap s \<and> frame_queue s' = frame_queue s \<and>
     frame_queue_inds s' = frame_queue_inds s \<and> writer s' = writer s"
  by (auto simp: priv_gen_next_raw_transform_def Let_def split: list.splits option.splits prod.splits)

lemma init_body_vid_cap:
  "init_body D w mf ga cur s = Inr (b, s') \<Longrightarrow> vid_cap s' = vid_cap s"
  by (auto simp: init_body_def Let_def split: sum.splits list.splits if_splits
      dest!: priv_gen_next_raw_transform_keeps)

text \<open>The loop of lines 169 to 190: it ends when the source has no frame left or when a
  pass breaks.\<close>

function init_loop :: "deps \<Rightarrow> nat \<Rightarrow> enat \<Rightarrow> bool \<Rightarrow> vidstab \<Rightarrow> vidstab result" where
  "init_loop D smoothing_window max_frames gen_all s =
     (case vid_cap s of
        [] \<Rightarrow> Inr s
      | cur_frame # fs \<Rightarrow>
          (case init_body D smoothing_window max_frames gen_all cur_frame (s\<lparr>vid_cap := fs\<rparr>) of
             Inl e \<Rightarrow> Inl e
           | Inr (stop, s') \<Rightarrow>
               if stop then Inr s' else init_loop D smoothing_window max_frames gen_all s'))"
  by pat_completeness auto
termination
  by (relation "measure (\<lambda>(D, w, mf, ga, s). length (vid_cap s))")
     (auto dest!: init_body_vid_cap)

declare init_loop.simps [simp del]

text \<open>\<^verbatim>\<open>_init_trajectory\<close>, lines 136 to 194: the first frame seeds the detector state
  and enters the queue; on an empty source the colour conversion of line 154 fails.\<close>

definition priv_init_trajectory :: "deps \<Rightarrow> nat \<Rightarrow> enat \<Rightarrow> bool \<Rightarrow> vidstab \<Rightarrow> vidstab result" where
  "priv_init_trajectory D smoothing_window max_frames gen_all s =
     (case read_frame s of
        (None, s1) \<Rightarrow> Inl (cv2_error, s1)
      | (Some prev_frame, s1) \<Rightarrow>
          (let prev_frame_gray = CvtColor prev_frame;
               s2 = s1\<lparr>prev_kps := Some (detect D prev_frame_gray),
                       frame_queue := deque_append (frame_queue s1) prev_frame,
                       prev_gray := Some prev_frame_gray\<rparr>
           in case init_loop D smoothing_window max_frames gen_all s2 of
                Inl e \<Rightarrow> Inl e
              | Inr s3 \<Rightarrow> priv_gen_transforms D smoothing_window s3))"

section \<open>Rendering\<close>

text \<open>Lines 211 to 220 of \<^verbatim>\<open>_apply_transforms\<close>: the dictionary of border modes, and the
  pair (\<^verbatim>\<open>neg_border_size\<close>, \<^verbatim>\<open>border_size\<close>) the requested border size is turned into.\<close>

definition border_modes :: "(string \<times> border_mode) list" where
  "border_modes = [(''black'', BORDER_CONSTANT), (''reflect'', BORDER_REFLECT),
     (''replicate'', BORDER_REPLICATE)]"

definition border_sizes :: "int \<Rightarrow> int \<times> int" where
  "border_sizes border_size =
     (if border_size < 0 then (100 + \<bar>border_size\<bar>, 100) else (0, border_size))"

text \<open>The values that stay fixed while the loop of \<^verbatim>\<open>_apply_transforms\<close> runs;
  \<open>h_dim\<close> and \<open>w_dim\<close> are the locals \<^verbatim>\<open>h\<close> and \<^verbatim>\<open>w\<close>.\<close>

record render_config =
  max_frames :: enat
  smoothing_window :: nat
  border_mode :: border_mode
  border_size :: int
  neg_border_size :: int
  h_dim :: int
  w_dim :: int
  layer_func :: "(frame \<Rightarrow> frame \<Rightarrow> frame) option"

text \<open>Lines 249 to 254: the matrix of a compensation transform.\<close>

definition build_transform :: "vec3 \<Rightarrow> affine" where
  "build_transform transform_i =
     (case transform_i of
        (dx, dy, da) \<Rightarrow>
          \<lparr>m00 = cos da, m01 = - sin da, m02 = dx, m10 = sin da, m11 = cos da, m12 = dy\<rparr>)"

text \<open>Lines 257 to 271: border, warp and crop.\<close>

definition warp_frame :: "render_config \<Rightarrow> frame \<Rightarrow> affine \<Rightarrow> frame" where
  "warp_frame c frame_i transform =
     (let bordered_frame =
            CopyMakeBorder frame_i (border_size c * 2) (border_size c * 2)
              (border_size c * 2) (border_size c * 2) (border_mode c);
          transformed =
            WarpAffine bordered_frame transform
              (w_dim c + border_size c * 2, h_dim c + border_size c * 2) (border_mode c);
          buffer = border_size c + neg_border_size c
      in Crop transformed buffer (fst (shape transformed) - buffer)
           buffer (snd (shape transformed) - buffer))"

text \<open>Lines 234 to 239: read the next frame and, when there is one, extend the
  trajectory and recompute the transforms.\<close>

definition apply_read :: "deps \<Rightarrow> render_config \<Rightarrow> vidstab \<Rightarrow> (bool \<times> vidstab) result" where
  "apply_read D c s =
     (case read_frame s of
        (None, s1) \<Rightarrow> Inr (False, s1)
      | (Some next_frame, s1) \<Rightarrow>
          (let s2 = s1\<lparr>frame_queue := deque_append (frame_queue s1) next_frame\<rparr> in
           case items (frame_queue_inds s2) of
             [] \<Rightarrow> Inl (IndexError, s2)
           | i # is \<Rightarrow>
               (let s3 = s2\<lparr>frame_queue_inds :=
                               deque_append (frame_queue_inds s2) (last (i # is) + 1)\<rparr>
                in case priv_gen_next_raw_transform D s3 of
                     Inl e \<Rightarrow> Inl e
                   | Inr s4 \<Rightarrow>
                       (case priv_gen_transforms D (smoothing_window c) s4 of
                          Inl e \<Rightarrow> Inl e
                        | Inr s5 \<Rightarrow> Inr (True, s5)))))"

text \<open>Lines 241 to 243: the index and the frame leave their queues, and the transform of
  that index is looked up.\<close>

definition take_next :: "vidstab \<Rightarrow> (nat \<times> frame \<times> vec3 \<times> vidstab) result" where
  "take_next s =
     (case deque_popleft (frame_queue_inds s) of
        None \<Rightarrow> Inl (IndexError, s)
      | Some (i, inds) \<Rightarrow>
          (let s1 = s\<lparr>frame_queue_inds := inds\<rparr> in
           case deque_popleft (frame_queue s1) of
             None \<Rightarrow> Inl (IndexError, s1)
           | Some (frame_i, frames) \<Rightarrow>
               (let s2 = s1\<lparr>frame_queue := frames\<rparr> in
                case transforms s2 of
                  None \<Rightarrow> Inl (TypeError, s2)
                | Some C \<Rightarrow>
                    if i < length C then Inr (i, frame_i, C ! i, s2)
                    else Inl (IndexError, s2))))"

text \<open>Lines 273 to 277: the frame to emit and the background of the next pass.\<close>

definition layer :: "render_config \<Rightarrow> nat \<Rightarrow> frame \<Rightarrow> frame \<Rightarrow> frame \<times> frame" where
  "layer c i transformed prev_frame =
     (case layer_func c of
        None \<Rightarrow> (transformed, prev_frame)
      | Some f \<Rightarrow>
          (let transformed' = (if 1 < i then f transformed prev_frame else transformed)
           in (transformed', transformed')))"

text \<open>Lines 296 to 301: the writer is created for the shape of the first frame written.\<close>

definition write_frame :: "frame \<Rightarrow> vidstab \<Rightarrow> vidstab" where
  "write_frame transformed s =
     (case writer s of
        None \<Rightarrow> s\<lparr>writer := Some \<lparr>sink_shape = shape transformed, written = [transformed]\<rparr>\<rparr>
      | Some k \<Rightarrow> s\<lparr>writer := Some (k\<lparr>written := written k @ [transformed]\<rparr>)\<rparr>)"

datatype outcome = Break vidstab | Next frame bool vidstab

text \<open>The body of the loop of \<^verbatim>\<open>_apply_transforms\<close>, lines 231 to 301, without the
  progress bar and with \<^verbatim>\<open>playback\<close> off (its default). \<open>Next\<close> carries the locals
  \<^verbatim>\<open>prev_frame\<close> and \<^verbatim>\<open>grabbed_frame\<close> into the next pass.\<close>

definition apply_body :: "deps \<Rightarrow> render_config \<Rightarrow> frame \<Rightarrow> vidstab \<Rightarrow> outcome result" where
  "apply_body D c prev_frame s =
     (case apply_read D c s of
        Inl e \<Rightarrow> Inl e
      | Inr (grabbed_frame, s1) \<Rightarrow>
          (case take_next s1 of
             Inl e \<Rightarrow> Inl e
           | Inr (i, frame_i, transform_i, s2) \<Rightarrow>
               if max_frames c \<le> enat i then Inr (Break s2)
               else
                 (case layer c i (warp_frame c frame_i (build_transform transform_i)) prev_frame of
                    (transformed, prev_frame') \<Rightarrow>
                      Inr (Next prev_frame' grabbed_frame (write_frame transformed s2)))))"

text \<open>The loop of line 230. Every pass that goes on has read a frame or shortened the
  queue, which is why the loop ends.\<close>

definition loop_size :: "vidstab \<Rightarrow> nat" where
  "loop_size s = length (vid_cap s) + length (items (frame_queue s))"

lemma deque_append_length: "length (items (deque_append q x)) \<le> Suc (length (items q))"
  by (auto simp: deque_append_def split: option.splits)

lemma priv_gen_transforms_queues:
  "priv_gen_transforms D n s = Inr s' \<Longrightarrow>
     frame_queue s' = frame_queue s \<and> vid_cap s' = vid_cap s \<and>
     frame_queue_inds s' = frame_queue_inds s \<and> writer s' = writer s"
  by (auto simp: priv_gen_transforms_def Let_def split: option.splits if_splits)

lemma apply_read_size:
  "apply_read D c s = Inr (g, s') \<Longrightarrow>
     length (vid_cap s') + length (items (frame_queue s')) \<le>
     length (vid_cap s) + length (items (frame_queue s))"
  using deque_append_length [of "frame_queue s" "hd (vid_cap s)"]
  by (auto simp: apply_read_def read_frame_def Let_def le_Suc_eq
      split: list.splits sum.splits
      dest!: priv_gen_next_raw_transform_keeps priv_gen_transforms_queues)

lemma take_next_size:
  "take_next s = Inr (i, f, t, s') \<Longrightarrow>
     vid_cap s' = vid_cap s \<and> Suc (length (items (frame_queue s'))) = length (items (frame_queue s))"
  by (auto simp: take_next_def deque_popleft_def Let_def split: list.splits option.splits if_splits)

lemma write_frame_size:
  "vid_cap (write_frame t s) = vid_cap s \<and> frame_queue (write_frame t s) = frame_queue s"
  by (simp add: write_frame_def split: option.splits)

lemma apply_body_size:
  "apply_body D c pf s = Inr (Next pf' g' s') \<Longrightarrow> loop_size s' < loop_size s"
  by (auto simp: apply_body_def loop_size_def write_frame_size
      split: sum.splits prod.splits if_splits
      dest!: apply_read_size take_next_size)

function apply_loop :: "deps \<Rightarrow> render_config \<Rightarrow> frame \<Rightarrow> bool \<Rightarrow> vidstab \<Rightarrow> vidstab result" where
  "apply_loop D c prev_frame grabbed_frame s =
     (if 0 < length (items (frame_queue s)) \<or> grabbed_frame then
        (case apply_body D c prev_frame s of
           Inl e \<Rightarrow> Inl e
         | Inr (Break s') \<Rightarrow> Inr s'
         | Inr (Next prev_frame' grabbed_frame' s') \<Rightarrow>
             apply_loop D c prev_frame' grabbed_frame' s')
      else Inr s)"
  by pat_completeness auto
termination
  by (relation "measure (\<lambda>(D, c, pf, g, s). loop_size s)") (auto dest!: apply_body_size)

declare apply_loop.simps [simp del]

text \<open>\<^verbatim>\<open>_apply_transforms\<close>, lines 205 to 306: the checks and the locals set up before
  the loop (lines 208 to 229), then the loop, then the release of the writer.\<close>

definition apply_setup ::
  "enat \<Rightarrow> nat \<Rightarrow> string \<Rightarrow> int \<Rightarrow> (frame \<Rightarrow> frame \<Rightarrow> frame) option \<Rightarrow> vidstab \<Rightarrow>
   (render_config \<times> frame \<times> vidstab) result" where
  "apply_setup max_frames_arg smoothing_window_arg border_type border_size_arg layer_func_arg s =
     (if border_type \<notin> set [''black'', ''reflect'', ''replicate'', ''trail'']
      then Inl (ValueError ''Invalid border type'', s)
      else
        (case map_of border_modes border_type of
           None \<Rightarrow> Inl (KeyError, s)
         | Some mode \<Rightarrow>
             (case border_sizes border_size_arg of
                (neg, bs) \<Rightarrow>
                  (case deque_popleft (frame_queue s) of
                     None \<Rightarrow> Inl (IndexError, s)
                   | Some (prev_frame, frames) \<Rightarrow>
                       Inr (\<lparr>max_frames = max_frames_arg,
                              smoothing_window = smoothing_window_arg,
                              border_mode = mode, border_size = bs, neg_border_size = neg,
                              h_dim = fst (shape prev_frame) + 2 * bs,
                              w_dim = snd (shape prev_frame) + 2 * bs,
                              layer_func = layer_func_arg\<rparr>,
                            prev_frame, s\<lparr>frame_queue := frames\<rparr>)))))"

definition priv_apply_transforms ::
  "deps \<Rightarrow> enat \<Rightarrow> nat \<Rightarrow> string \<Rightarrow> int \<Rightarrow> (frame \<Rightarrow> frame \<Rightarrow> frame) option \<Rightarrow> vidstab \<Rightarrow>
   vidstab result" where
  "priv_apply_transforms D max_frames_arg smoothing_window_arg border_type border_size_arg
     layer_func_arg s =
     (case apply_setup max_frames_arg smoothing_window_arg border_type border_size_arg
             layer_func_arg s of
        Inl e \<Rightarrow> Inl e
      | Inr (c, prev_frame, s1) \<Rightarrow>
          (case apply_loop D c prev_frame True s1 of
             Inl e \<Rightarrow> Inl e
           | Inr s' \<Rightarrow>
               (case writer s' of
                  None \<Rightarrow> Inl (AttributeError, s')
                | Some k \<Rightarrow> Inr s')))"

section \<open>Entry points\<close>

text \<open>
  \<^verbatim>\<open>stabilize\<close>, lines 369 to 386, \<^verbatim>\<open>gen_transforms\<close>, lines 319 to 330, and
  \<^verbatim>\<open>apply_transforms\<close>, lines 308 to 312. The video behind \<^verbatim>\<open>input_path\<close> is the list of
  its frames, and \<open>start_run\<close> is the opening of the source and the creation of the two
  queues, which both \<^verbatim>\<open>stabilize\<close> and \<^verbatim>\<open>gen_transforms\<close> begin with.
  \<^verbatim>\<open>apply_transforms\<close> passes the stored window on; while no analysis has
  stored one the call fails on \<^verbatim>\<open>None - 1\<close> inside \<^verbatim>\<open>_init_trajectory\<close>, which the model
  reports at once.
\<close>

definition start_run :: "frame list \<Rightarrow> nat \<Rightarrow> vidstab \<Rightarrow> vidstab" where
  "start_run input smoothing_window_arg s =
     s\<lparr>vid_cap := input,
       frame_queue := new_deque (Some smoothing_window_arg),
       frame_queue_inds := new_deque (Some smoothing_window_arg)\<rparr>"

definition stabilize ::
  "deps \<Rightarrow> frame list \<Rightarrow> nat \<Rightarrow> enat \<Rightarrow> string \<Rightarrow> int \<Rightarrow> (frame \<Rightarrow> frame \<Rightarrow> frame) option \<Rightarrow>
   bool \<Rightarrow> vidstab \<Rightarrow> vidstab result" where
  "stabilize D input smoothing_window_arg max_frames_arg border_type border_size_arg
     layer_func_arg use_stored_transforms s =
     (let s1 = start_run input smoothing_window_arg s
      in case (if \<not> use_stored_transforms
               then priv_init_trajectory D smoothing_window_arg max_frames_arg False s1
               else Inr s1) of
           Inl e \<Rightarrow> Inl e
         | Inr s2 \<Rightarrow>
             priv_apply_transforms D max_frames_arg smoothing_window_arg border_type
               border_size_arg layer_func_arg s2)"

definition gen_transforms :: "deps \<Rightarrow> frame list \<Rightarrow> nat \<Rightarrow> vidstab \<Rightarrow> vidstab result" where
  "gen_transforms D input smoothing_window_arg s =
     priv_init_trajectory D smoothing_window_arg \<infinity> True
       (start_run input smoothing_window_arg
          (s\<lparr>priv_smoothing_window := Some smoothing_window_arg\<rparr>))"

definition apply_transforms ::
  "deps \<Rightarrow> frame list \<Rightarrow> string \<Rightarrow> int \<Rightarrow> (frame \<Rightarrow> frame \<Rightarrow> frame) option \<Rightarrow> vidstab \<Rightarrow>
   vidstab result" where
  "apply_transforms D input border_type border_size_arg layer_func_arg s =
     (case priv_smoothing_window s of
        None \<Rightarrow> Inl (TypeError, s)
      | Some n \<Rightarrow>
          stabilize D input n \<infinity> border_type border_size_arg layer_func_arg False s)"

section \<open>The passes of the rendering loop\<close>

text \<open>
  \<open>visited D c x y\<close>: the loop of \<^verbatim>\<open>_apply_transforms\<close>, started with the locals and the
  object \<open>x\<close>, reaches the head of a pass with the locals and the object \<open>y\<close>.
\<close>

inductive visited ::
  "deps \<Rightarrow> render_config \<Rightarrow> frame \<times> bool \<times> vidstab \<Rightarrow> frame \<times> bool \<times> vidstab \<Rightarrow> bool"
  for D :: deps and c :: render_config and x :: "frame \<times> bool \<times> vidstab" where
  start: "visited D c x x"
| pass: "visited D c x (pf, g, s) \<Longrightarrow> 0 < length (items (frame_queue s)) \<or> g \<Longrightarrow>
         apply_body D c pf s = Inr (Next pf' g' s') \<Longrightarrow> visited D c x (pf', g', s')"


text \<open>The two errors of the border type: the configuration error of line 209 and the
  missing key of line 214.\<close>

definition border_error :: "error \<Rightarrow> bool" where
  "border_error e = (e = ValueError ''Invalid border type'' \<or> e = KeyError)"

section \<open>Observing a run\<close>

text \<open>The object a call ends with, whether it returns or raises, and the frames the
  writer has received.\<close>

definition final_state :: "vidstab result \<Rightarrow> vidstab" where
  "final_state r = (case r of Inl (e, s) \<Rightarrow> s | Inr s \<Rightarrow> s)"

definition emitted :: "vidstab \<Rightarrow> frame list" where
  "emitted s = (case writer s of None \<Rightarrow> [] | Some k \<Rightarrow> written k)"

text \<open>
  \<open>pos src s\<close> is the position in the source \<open>src\<close> of the oldest frame in the queue
  (of the next frame to read when the queue is empty), and \<open>window_of src s\<close> says that
  the queue followed by the frames not yet read is the source from that position on, and
  that the queue respects its \<^verbatim>\<open>maxlen\<close>.
\<close>

definition pos :: "frame list \<Rightarrow> vidstab \<Rightarrow> nat" where
  "pos src s = length src - (length (items (frame_queue s)) + length (vid_cap s))"

definition window_of :: "frame list \<Rightarrow> vidstab \<Rightarrow> bool" where
  "window_of src s =
     (items (frame_queue s) @ vid_cap s = drop (pos src s) src \<and>
      (case maxlen (frame_queue s) of None \<Rightarrow> True
       | Some m \<Rightarrow> length (items (frame_queue s)) \<le> m))"

definition emitted_below :: "frame list \<Rightarrow> nat \<Rightarrow> vidstab \<Rightarrow> bool" where
  "emitted_below E b s =
     (take (length E) (emitted s) = E \<and> length (emitted s) < length E + b)"

text \<open>What holds at the head of every pass of a run that started with the frames \<open>E\<close>
  already written: the queue is a window on the source that no longer holds the first
  frame, and fewer frames were emitted than the window has advanced.\<close>

definition pass_inv :: "frame list \<Rightarrow> frame list \<Rightarrow> vidstab \<Rightarrow> bool" where
  "pass_inv E src s = (window_of src s \<and> emitted_below E (pos src s) s)"

section \<open>Collaborators and inputs for concrete runs\<close>

text \<open>An estimator whose fit always returns the same result (\<open>None\<close>: every fit fails),
  with the smoother of the specification, and a source frame of four rows and six
  columns.\<close>

definition fixed_fit :: "affine option \<Rightarrow> deps" where
  "fixed_fit t = \<lparr>detect = (\<lambda>g. []), calcOpticalFlowPyrLK = (\<lambda>pg cg pk. ([], [])),
     estimateRigidTransform = (\<lambda>pm cm. t), smoother = bfill_rolling_mean\<rparr>"

definition F :: "nat \<Rightarrow> frame" where
  "F k = Decoded 4 6 k"

text \<open>A fit that reports the translation (1, 2) and no rotation, and the locals of a run
  on frames \<open>F k\<close> with border size 0 and a layering function.\<close>

definition pan :: affine where
  "pan = \<lparr>m00 = 1, m01 = 0, m02 = 1, m10 = 0, m11 = 1, m12 = 2\<rparr>"

definition plain :: render_config where
  "plain = \<lparr>max_frames = \<infinity>, smoothing_window = 3, border_mode = BORDER_CONSTANT,
     border_size = 0, neg_border_size = 0, h_dim = 4, w_dim = 6, layer_func = Some Layered\<rparr>"

text \<open>The object at the start of a \<^verbatim>\<open>stabilize\<close> run on four frames with a window of two,
  and the locals of its rendering loop.\<close>

definition pan_start :: vidstab where
  "pan_start = start_run [F 0, F 1, F 2, F 3] 2 init_vidstab"

definition pan_config :: render_config where
  "pan_config = \<lparr>max_frames = \<infinity>, smoothing_window = 2, border_mode = BORDER_CONSTANT,
     border_size = 0, neg_border_size = 0, h_dim = 4, w_dim = 6, layer_func = None\<rparr>"

lemmas run_defs = stabilize_def gen_transforms_def apply_transforms_def start_run_def
  priv_init_trajectory_def init_body_def priv_gen_next_raw_transform_def
  priv_gen_transforms_def priv_apply_transforms_def apply_setup_def apply_body_def
  apply_read_def take_next_def layer_def write_frame_def warp_frame_def build_transform_def
  border_sizes_def border_modes_def deque_append_def deque_popleft_def new_deque_def
  read_frame_def next_ind_def init_vidstab_def transform_params_def accumulate_def
  fixed_fit_def bfill_rolling_mean_def rolling_mean_def window_def average3_def sum3_def
  Let_def F_def slice_len_def slice_index_def upt_conv_Cons final_state_def emitted_def
  arctan2_def init_loop.simps apply_loop.simps

section \<open>Properties of the accumulator\<close>

lemma accumulate_length: "length (accumulate T d) = Suc (length T)"
  by (simp add: accumulate_def)

lemma accumulate_nth_old: "i < length T \<Longrightarrow> accumulate T d ! i = T ! i"
  by (auto simp add: accumulate_def nth_append)

lemma accumulate_nth_new:
  "accumulate T d ! length T = (if T = [] then d else add3 (last T) d)"
  by (simp add: accumulate_def)

lemma foldl_accumulate_length: "length (foldl accumulate T ds) = length T + length ds"
  by (induction ds arbitrary: T) (simp_all add: accumulate_length)

lemma sum3_snoc: "sum3 (xs @ [d]) = add3 (sum3 xs) d"
  by (cases d) (simp add: sum3_def)

lemma sum3_single: "sum3 [d] = d"
  by (cases d) (simp add: sum3_def)

lemma foldl_accumulate_nth:
  "i < length ds \<Longrightarrow> foldl accumulate [] ds ! i = sum3 (take (Suc i) ds)"
proof (induction ds arbitrary: i rule: rev_induct)
  case Nil
  then show ?case by simp
next
  case (snoc d ds)
  let ?T = "foldl accumulate [] ds"
  have len: "length ?T = length ds"
    by (simp add: foldl_accumulate_length)
  show ?case
  proof (cases "i < length ds")
    case True
    then have "foldl accumulate [] (ds @ [d]) ! i = ?T ! i"
      using len by (simp add: accumulate_nth_old)
    with True snoc.IH show ?thesis by simp
  next
    case False
    with snoc.prems have i: "i = length ds" by simp
    show ?thesis
    proof (cases "ds = []")
      case True
      with i show ?thesis using accumulate_nth_new [of "[]" d] by (simp add: sum3_single)
    next
      case False
      then have ne: "?T \<noteq> []" using len by auto
      have "last ?T = ?T ! (length ds - 1)"
        using ne len by (simp add: last_conv_nth)
      also have "\<dots> = sum3 (take (Suc (length ds - 1)) ds)"
        using False by (intro snoc.IH) simp
      also have "\<dots> = sum3 ds" using False by simp
      finally have "last ?T = sum3 ds" .
      then show ?thesis
        using i ne len accumulate_nth_new [of ?T d] by (simp add: sum3_snoc)
    qed
  qed
qed

lemma priv_gen_next_raw_transform_accumulates:
  assumes "priv_gen_next_raw_transform D s = Inr s'"
    and "priv_trajectory s = foldl accumulate [] (priv_raw_transforms s)"
  shows "priv_trajectory s' = foldl accumulate [] (priv_raw_transforms s')"
  using assms
  by (auto simp: priv_gen_next_raw_transform_def Let_def
      split: list.splits option.splits prod.splits)

text \<open>
  Claim C3. Accumulating any sequence of motion deltas in order yields a trajectory of the
  same length in which entry \<open>i\<close> is the componentwise sum of the deltas \<open>0..i\<close>; the
  first entry is the first delta and each later entry is its predecessor plus the delta
  of the same index. Every call of \<^verbatim>\<open>_gen_next_raw_transform\<close> that returns keeps
  \<^verbatim>\<open>_trajectory\<close> the accumulation of \<^verbatim>\<open>_raw_transforms\<close>.
\<close>

theorem trajectory_is_cumulative_sum:
  "length (foldl accumulate [] ds) = length ds \<and>
   (\<forall>i. i < length ds \<longrightarrow> foldl accumulate [] ds ! i = sum3 (take (Suc i) ds)) \<and>
   (ds \<noteq> [] \<longrightarrow> foldl accumulate [] ds ! 0 = ds ! 0) \<and>
   (\<forall>i. 1 \<le> i \<and> i < length ds \<longrightarrow>
      foldl accumulate [] ds ! i = add3 (foldl accumulate [] ds ! (i - 1)) (ds ! i)) \<and>
   (\<forall>D s s'. priv_gen_next_raw_transform D s = Inr s' \<longrightarrow>
      priv_trajectory s = foldl accumulate [] (priv_raw_transforms s) \<longrightarrow>
      priv_trajectory s' = foldl accumulate [] (priv_raw_transforms s'))"
proof (intro conjI allI impI)
  fix D s s'
  assume "priv_gen_next_raw_transform D s = Inr s'"
    and "priv_trajectory s = foldl accumulate [] (priv_raw_transforms s)"
  then show "priv_trajectory s' = foldl accumulate [] (priv_raw_transforms s')"
    by (rule priv_gen_next_raw_transform_accumulates)
next
  show "length (foldl accumulate [] ds) = length ds"
    by (simp add: foldl_accumulate_length)
next
  fix i assume "i < length ds"
  then show "foldl accumulate [] ds ! i = sum3 (take (Suc i) ds)"
    by (rule foldl_accumulate_nth)
next
  assume "ds \<noteq> []"
  then have "0 < length ds" by simp
  then have "foldl accumulate [] ds ! 0 = sum3 (take (Suc 0) ds)"
    by (rule foldl_accumulate_nth)
  also have "\<dots> = ds ! 0"
    using \<open>ds \<noteq> []\<close> by (cases ds) (simp_all add: sum3_single)
  finally show "foldl accumulate [] ds ! 0 = ds ! 0" .
next
  fix i assume i: "1 \<le> i \<and> i < length ds"
  then have "foldl accumulate [] ds ! i = sum3 (take (Suc i) ds)"
    by (simp add: foldl_accumulate_nth)
  also have "take (Suc i) ds = take i ds @ [ds ! i]"
    using i by (simp add: take_Suc_conv_app_nth)
  also have "sum3 (take i ds @ [ds ! i]) = add3 (sum3 (take i ds)) (ds ! i)"
    by (rule sum3_snoc)
  also have "sum3 (take i ds) = foldl accumulate [] ds ! (i - 1)"
    using i foldl_accumulate_nth [of "i - 1" ds] by auto
  finally show "foldl accumulate [] ds ! i = add3 (foldl accumulate [] ds ! (i - 1)) (ds ! i)" .
qed

theorem trajectory_is_cumulative_sum_witness:
  "foldl accumulate [] [(1, 2, 3), (10, 20, 30), (100, 200, 300)] ! 2 = (111, 222, 333) \<and>
   foldl accumulate [] [(1, 2, 3), (10, 20, 30), (100, 200, 300)] ! 2 =
     add3 (foldl accumulate [] [(1, 2, 3), (10, 20, 30), (100, 200, 300)] ! 1) (100, 200, 300)"
  using trajectory_is_cumulative_sum [of "[(1, 2, 3), (10, 20, 30), (100, 200, 300)]"]
  by (simp add: sum3_def accumulate_def)

section \<open>Properties of the smoother\<close>

lemma those_map_Some: "those (map Some xs) = Some xs"
  by (induction xs) simp_all

lemma bfill_map_Some: "bfill (map Some ys) = map Some ys"
  by (induction ys) simp_all

lemma bfill_prefix:
  "ys \<noteq> [] \<Longrightarrow> bfill (replicate k None @ map Some ys) = replicate k (Some (hd ys)) @ map Some ys"
proof (induction k)
  case 0
  then show ?case by (simp add: bfill_map_Some)
next
  case (Suc k)
  then obtain y ys' where ys: "ys = y # ys'" by (cases ys) auto
  show ?case using Suc ys by (cases k) (simp_all)
qed

lemma rolling_mean_split:
  assumes "1 \<le> w" "w \<le> length T"
  shows "rolling_mean T w =
    replicate (w - 1) None @ map Some (map (\<lambda>i. average3 (window T w i)) [w - 1..<length T])"
proof -
  have "[0..<length T] = [0..<w - 1] @ [w - 1..<length T]"
    using assms upt_add_eq_append [of 0 "w - 1" "length T - (w - 1)"] by simp
  then show ?thesis
    using assms by (simp add: rolling_mean_def map_replicate_trivial [symmetric] del: map_replicate_trivial)
qed

lemma bfill_rolling_mean_eq:
  assumes "1 \<le> w" "w \<le> length T"
  shows "bfill_rolling_mean T w =
    Some (replicate (w - 1) (average3 (window T w (w - 1))) @
          map (\<lambda>i. average3 (window T w i)) [w - 1..<length T])"
proof -
  let ?ms = "map (\<lambda>i. average3 (window T w i)) [w - 1..<length T]"
  have ne: "?ms \<noteq> []" using assms by auto
  have hd: "hd ?ms = average3 (window T w (w - 1))"
    using assms by (simp add: hd_map upt_conv_Cons)
  have "bfill (rolling_mean T w) = replicate (w - 1) (Some (hd ?ms)) @ map Some ?ms"
    using rolling_mean_split [OF assms] bfill_prefix [OF ne, of "w - 1"] by simp
  also have "\<dots> = map Some (replicate (w - 1) (hd ?ms) @ ?ms)"
    by simp
  finally show ?thesis
    unfolding bfill_rolling_mean_def by (simp only: those_map_Some hd)
qed

text \<open>
  Claim C1. For a window \<open>w \<ge> 1\<close> and a trajectory of at least \<open>w\<close> rows the smoother
  returns a trajectory of the same length; from index \<open>w - 1\<close> on, each row is the
  componentwise mean of the \<open>w\<close> rows ending there, and every earlier row equals row
  \<open>w - 1\<close>.
\<close>

theorem smoother_backfilled_rolling_mean:
  assumes "1 \<le> w" and "w \<le> length T"
  shows "\<exists>S. bfill_rolling_mean T w = Some S \<and> length S = length T \<and>
    (\<forall>i. w - 1 \<le> i \<and> i < length T \<longrightarrow> S ! i = average3 (window T w i)) \<and>
    (\<forall>i. i < w - 1 \<longrightarrow> S ! i = S ! (w - 1))"
proof -
  let ?m = "average3 (window T w (w - 1))"
  let ?S = "replicate (w - 1) ?m @ map (\<lambda>i. average3 (window T w i)) [w - 1..<length T]"
  have eq: "bfill_rolling_mean T w = Some ?S"
    using assms by (rule bfill_rolling_mean_eq)
  have len: "length ?S = length T" using assms by simp
  have tail: "S' ! i = average3 (window T w i)" if "w - 1 \<le> i" "i < length T" "S' = ?S" for i S'
  proof -
    have "Suc i - w < length T - (w - 1)" using that assms by arith
    moreover have "w - 1 + (Suc i - w) = i" using that assms by arith
    ultimately have "[w - 1..<length T] ! (Suc i - w) = i" by simp
    moreover have "i - (w - 1) = Suc i - w" using that assms by arith
    ultimately show ?thesis using that assms by (simp add: nth_append)
  qed
  have head: "?S ! i = ?S ! (w - 1)" if "i < w - 1" for i
    using that assms tail [of "w - 1" ?S] by (simp add: nth_append)
  from eq len tail head show ?thesis by blast
qed

theorem smoother_backfilled_rolling_mean_witness:
  "bfill_rolling_mean [(1, 10, 100), (2, 20, 200), (3, 30, 300), (4, 40, 400)] 3 =
     Some [(2, 20, 200), (2, 20, 200), (2, 20, 200), (3, 30, 300)] \<and>
   average3 (window [(1, 10, 100), (2, 20, 200), (3, 30, 300), (4, 40, 400)] 3 3) = (3, 30, 300)"
  using smoother_backfilled_rolling_mean [of 3 "[(1, 10, 100), (2, 20, 200), (3, 30, 300), (4, 40, 400)]"]
  by (simp add: bfill_rolling_mean_def rolling_mean_def window_def average3_def sum3_def
      upt_conv_Cons)

section \<open>Motion estimation failures\<close>





section \<open>Border size\<close>

lemma apply_setup_config:
  assumes "apply_setup mf n bt k lf s = Inr (c, pf, s')"
  shows "border_size c = snd (border_sizes k) \<and> neg_border_size c = fst (border_sizes k) \<and>
    h_dim c = fst (shape pf) + 2 * snd (border_sizes k) \<and>
    w_dim c = snd (shape pf) + 2 * snd (border_sizes k) \<and>
    Some pf = map_option fst (deque_popleft (frame_queue s))"
  using assms
  by (auto simp: apply_setup_def split: if_splits option.splits prod.splits)

text \<open>
  Claim C9, as amended. Let a frame have the shape of the frames of the video, with at
  least \<open>2k\<close> rows and \<open>2k\<close> columns, \<open>k > 0\<close>. Rendered with border size \<open>k\<close> it
  gains \<open>2k\<close> rows and columns, rendered with \<open>-k\<close> it loses \<open>2k\<close>: the two shapes
  differ by \<open>4k\<close> in each dimension, and the second is strictly smaller than the shape for
  border size 0, which is the shape of the frame. For \<open>-k\<close> the frame is bordered as for
  a border size of 100 (200 pixels on each side) and, after the warp, cropped by
  \<open>border_size + neg_border_size = 100 + (100 + k)\<close> on each side.
\<close>

theorem border_size_sign_shapes:
  assumes "0 < k"
    and "apply_setup mf n bt k lf s = Inr (cp, pf, sp)"
    and "apply_setup mf n bt (- k) lf s = Inr (cn, pf, sn)"
    and "apply_setup mf n bt 0 lf s = Inr (cz, pf, sz)"
    and "shape f = shape pf"
    and "2 * k \<le> fst (shape f)" and "2 * k \<le> snd (shape f)"
  shows "shape (warp_frame cp f M) = (fst (shape f) + 2 * k, snd (shape f) + 2 * k) \<and>
    shape (warp_frame cn f M) = (fst (shape f) - 2 * k, snd (shape f) - 2 * k) \<and>
    shape (warp_frame cz f M) = shape f \<and>
    fst (shape (warp_frame cp f M)) - fst (shape (warp_frame cn f M)) = 4 * k \<and>
    snd (shape (warp_frame cp f M)) - snd (shape (warp_frame cn f M)) = 4 * k \<and>
    fst (shape (warp_frame cn f M)) < fst (shape (warp_frame cz f M)) \<and>
    snd (shape (warp_frame cn f M)) < snd (shape (warp_frame cz f M)) \<and>
    border_size cn = 100 \<and> neg_border_size cn = 100 + k \<and>
    warp_frame cn f M =
      Crop (WarpAffine (CopyMakeBorder f 200 200 200 200 (border_mode cn)) M
              (snd (shape f) + 400, fst (shape f) + 400) (border_mode cn))
        (200 + k) (fst (shape f) + 400 - (200 + k)) (200 + k) (snd (shape f) + 400 - (200 + k))"
proof -
  note cp = apply_setup_config [OF assms(2)]
  note cn = apply_setup_config [OF assms(3)]
  note cz = apply_setup_config [OF assms(4)]
  have p: "shape (warp_frame cp f M) = (fst (shape f) + 2 * k, snd (shape f) + 2 * k)"
    using assms(1,5,6,7) cp
    by (simp add: warp_frame_def Let_def border_sizes_def slice_len_def slice_index_def)
  have n: "shape (warp_frame cn f M) = (fst (shape f) - 2 * k, snd (shape f) - 2 * k)"
    using assms(1,5,6,7) cn
    by (simp add: warp_frame_def Let_def border_sizes_def slice_len_def slice_index_def)
  have z: "shape (warp_frame cz f M) = shape f"
    using assms(1,5,6,7) cz
    by (simp add: warp_frame_def Let_def border_sizes_def slice_len_def slice_index_def)
  have t: "warp_frame cn f M =
      Crop (WarpAffine (CopyMakeBorder f 200 200 200 200 (border_mode cn)) M
              (snd (shape f) + 400, fst (shape f) + 400) (border_mode cn))
        (200 + k) (fst (shape f) + 400 - (200 + k)) (200 + k) (snd (shape f) + 400 - (200 + k))"
    using assms(1,5) cn by (simp add: warp_frame_def Let_def border_sizes_def)
  have b: "border_size cn = 100 \<and> neg_border_size cn = 100 + k"
    using assms(1) cn by (simp add: border_sizes_def)
  show ?thesis
    unfolding p n z using assms(1) b t by simp
qed

theorem border_size_sign_shapes_witness:
  "shape (warp_frame
      \<lparr>max_frames = \<infinity>, smoothing_window = 2, border_mode = BORDER_CONSTANT, border_size = 1,
        neg_border_size = 0, h_dim = 6, w_dim = 8, layer_func = None\<rparr> (F 1) pan) = (6, 8) \<and>
   shape (warp_frame
      \<lparr>max_frames = \<infinity>, smoothing_window = 2, border_mode = BORDER_CONSTANT, border_size = 100,
        neg_border_size = 101, h_dim = 204, w_dim = 206, layer_func = None\<rparr> (F 1) pan) = (2, 4)"
  using border_size_sign_shapes [of 1 \<infinity> 2 "''black''" None
      "init_vidstab\<lparr>frame_queue := \<lparr>maxlen = Some 2, items = [F 1, F 2]\<rparr>\<rparr>"
      "\<lparr>max_frames = \<infinity>, smoothing_window = 2, border_mode = BORDER_CONSTANT, border_size = 1,
        neg_border_size = 0, h_dim = 6, w_dim = 8, layer_func = None\<rparr>"
      "F 1" "init_vidstab\<lparr>frame_queue := \<lparr>maxlen = Some 2, items = [F 2]\<rparr>\<rparr>"
      "\<lparr>max_frames = \<infinity>, smoothing_window = 2, border_mode = BORDER_CONSTANT, border_size = 100,
        neg_border_size = 101, h_dim = 204, w_dim = 206, layer_func = None\<rparr>"
      "init_vidstab\<lparr>frame_queue := \<lparr>maxlen = Some 2, items = [F 2]\<rparr>\<rparr>"
      "\<lparr>max_frames = \<infinity>, smoothing_window = 2, border_mode = BORDER_CONSTANT, border_size = 0,
        neg_border_size = 0, h_dim = 4, w_dim = 6, layer_func = None\<rparr>"
      "init_vidstab\<lparr>frame_queue := \<lparr>maxlen = Some 2, items = [F 2]\<rparr>\<rparr>"
      "F 1" pan]
  by (simp add: apply_setup_def border_modes_def border_sizes_def deque_popleft_def
      init_vidstab_def F_def slice_len_def slice_index_def)

text \<open>
  The claim as stated fails on a frame of 100 rows and 160 columns with \<open>k = 60\<close>: the
  crop for \<open>-60\<close> leaves no row, so the row counts differ by 220 and not by 240; and the
  crop on each side is 260, not 160.
\<close>

theorem border_size_sign_shapes_counterexample:
  "apply_setup \<infinity> 2 ''black'' 60 None
      (init_vidstab\<lparr>frame_queue := \<lparr>maxlen = Some 2, items = [Decoded 100 160 1]\<rparr>\<rparr>) =
     Inr (\<lparr>max_frames = \<infinity>, smoothing_window = 2, border_mode = BORDER_CONSTANT,
            border_size = 60, neg_border_size = 0, h_dim = 220, w_dim = 280, layer_func = None\<rparr>,
          Decoded 100 160 1, init_vidstab\<lparr>frame_queue := \<lparr>maxlen = Some 2, items = []\<rparr>\<rparr>) \<and>
   apply_setup \<infinity> 2 ''black'' (- 60) None
      (init_vidstab\<lparr>frame_queue := \<lparr>maxlen = Some 2, items = [Decoded 100 160 1]\<rparr>\<rparr>) =
     Inr (\<lparr>max_frames = \<infinity>, smoothing_window = 2, border_mode = BORDER_CONSTANT,
            border_size = 100, neg_border_size = 160, h_dim = 300, w_dim = 360, layer_func = None\<rparr>,
          Decoded 100 160 1, init_vidstab\<lparr>frame_queue := \<lparr>maxlen = Some 2, items = []\<rparr>\<rparr>) \<and>
   shape (warp_frame
      \<lparr>max_frames = \<infinity>, smoothing_window = 2, border_mode = BORDER_CONSTANT,
        border_size = 60, neg_border_size = 0, h_dim = 220, w_dim = 280, layer_func = None\<rparr>
      (Decoded 100 160 2) (build_transform (0, 0, 0))) = (220, 280) \<and>
   shape (warp_frame
      \<lparr>max_frames = \<infinity>, smoothing_window = 2, border_mode = BORDER_CONSTANT,
        border_size = 100, neg_border_size = 160, h_dim = 300, w_dim = 360, layer_func = None\<rparr>
      (Decoded 100 160 2) (build_transform (0, 0, 0))) = (0, 40) \<and>
   fst (shape (warp_frame
      \<lparr>max_frames = \<infinity>, smoothing_window = 2, border_mode = BORDER_CONSTANT,
        border_size = 60, neg_border_size = 0, h_dim = 220, w_dim = 280, layer_func = None\<rparr>
      (Decoded 100 160 2) (build_transform (0, 0, 0)))) -
   fst (shape (warp_frame
      \<lparr>max_frames = \<infinity>, smoothing_window = 2, border_mode = BORDER_CONSTANT,
        border_size = 100, neg_border_size = 160, h_dim = 300, w_dim = 360, layer_func = None\<rparr>
      (Decoded 100 160 2) (build_transform (0, 0, 0)))) \<noteq> 4 * 60 \<and>
   warp_frame
      \<lparr>max_frames = \<infinity>, smoothing_window = 2, border_mode = BORDER_CONSTANT,
        border_size = 100, neg_border_size = 160, h_dim = 300, w_dim = 360, layer_func = None\<rparr>
      (Decoded 100 160 2) (build_transform (0, 0, 0)) =
     Crop (WarpAffine (CopyMakeBorder (Decoded 100 160 2) 200 200 200 200 BORDER_CONSTANT)
             (build_transform (0, 0, 0)) (560, 500) BORDER_CONSTANT)
       260 240 260 300"
  by (simp add: apply_setup_def border_modes_def border_sizes_def deque_popleft_def
      init_vidstab_def warp_frame_def Let_def slice_len_def slice_index_def)

section \<open>Concrete runs\<close>

text \<open>
  Claim C8 on a source of four frames with a window of three and a layering function:
  the run emits two frames, and the second one is the bare warp of its frame too. The
  indices dequeued are 0 and 1, and the test \<^verbatim>\<open>i > 1\<close> of line 274 lets both pass
  unlayered.
\<close>

theorem second_frame_not_layered:
  "emitted (final_state
      (stabilize (fixed_fit None) [F 0, F 1, F 2, F 3] 3 \<infinity> ''black'' 0 (Some Layered) False
         init_vidstab)) =
     [warp_frame plain (F 2) (build_transform (0, 0, 0)),
      warp_frame plain (F 3) (build_transform (0, 0, 0))]"
  by (simp add: run_defs plain_def)

text \<open>With five frames the second frame emitted is layered over the first.\<close>

lemma second_frame_layered:
  "emitted (final_state
      (stabilize (fixed_fit None) [F 0, F 1, F 2, F 3, F 4] 3 \<infinity> ''black'' 0 (Some Layered) False
         init_vidstab)) =
     [warp_frame plain (F 2) (build_transform (0, 0, 0)),
      Layered (warp_frame plain (F 3) (build_transform (0, 0, 0)))
        (warp_frame plain (F 2) (build_transform (0, 0, 0))),
      Layered (warp_frame plain (F 4) (build_transform (0, 0, 0)))
        (Layered (warp_frame plain (F 3) (build_transform (0, 0, 0)))
           (warp_frame plain (F 2) (build_transform (0, 0, 0))))]"
  by (simp add: run_defs plain_def)

text \<open>
  Claim C6 on a source of four frames whose every fit reports the translation (1, 2):
  the first analysis leaves a trajectory of three rows, the second one on the same object
  a trajectory of six rows, since \<^verbatim>\<open>_raw_transforms\<close> and \<^verbatim>\<open>_trajectory\<close> are only
  emptied by the constructor.
\<close>

theorem second_analysis_differs:
  "\<exists>s1 s2. gen_transforms (fixed_fit (Some pan)) [F 0, F 1, F 2, F 3] 2 init_vidstab = Inr s1 \<and>
     gen_transforms (fixed_fit (Some pan)) [F 0, F 1, F 2, F 3] 2 s1 = Inr s2 \<and>
     trajectory s1 = Some [(1, 2, 0), (2, 4, 0), (3, 6, 0)] \<and>
     trajectory s2 = Some [(1, 2, 0), (2, 4, 0), (3, 6, 0), (4, 8, 0), (5, 10, 0), (6, 12, 0)] \<and>
     smoothed_trajectory s1 = Some [(3 / 2, 3, 0), (3 / 2, 3, 0), (5 / 2, 5, 0)] \<and>
     smoothed_trajectory s2 =
       Some [(3 / 2, 3, 0), (3 / 2, 3, 0), (5 / 2, 5, 0), (7 / 2, 7, 0), (9 / 2, 9, 0), (11 / 2, 11, 0)]"
  by (simp add: run_defs pan_def)

text \<open>
  Claim C5 on the same source: \<^verbatim>\<open>apply_transforms\<close> after an analysis runs the estimator
  again on every frame pair, which shows in the three rows it adds to \<^verbatim>\<open>_raw_transforms\<close>.
\<close>

theorem apply_transforms_estimates_again:
  "\<exists>s1 s2. gen_transforms (fixed_fit (Some pan)) [F 0, F 1, F 2, F 3] 2 init_vidstab = Inr s1 \<and>
     apply_transforms (fixed_fit (Some pan)) [F 0, F 1, F 2, F 3] ''black'' 0 None s1 = Inr s2 \<and>
     priv_raw_transforms s1 = [(1, 2, 0), (1, 2, 0), (1, 2, 0)] \<and>
     priv_raw_transforms s2 =
       [(1, 2, 0), (1, 2, 0), (1, 2, 0), (1, 2, 0), (1, 2, 0), (1, 2, 0)] \<and>
     prev_gray s1 = Some (CvtColor (F 3)) \<and> prev_gray s2 = Some (CvtColor (F 3))"
  by (simp add: run_defs pan_def)

text \<open>
  Claim C4 as stated fails on a source of three frames with a window of two: for an
  unknown border type the error is raised when all three frames have been read, and
  for \<^verbatim>\<open>trail\<close> the run stops on the missing dictionary key.
\<close>

theorem border_type_checked_late_counterexample:
  "(\<exists>s'. stabilize (fixed_fit None) [F 0, F 1, F 2] 2 \<infinity> ''nope'' 0 None False init_vidstab =
        Inl (ValueError ''Invalid border type'', s') \<and> vid_cap s' = [] \<and>
        priv_raw_transforms s' = [(0, 0, 0), (0, 0, 0)]) \<and>
   (\<exists>s'. stabilize (fixed_fit None) [F 0, F 1, F 2] 2 \<infinity> ''trail'' 0 None False init_vidstab =
        Inl (KeyError, s'))"
  by (simp add: run_defs)

section \<open>Properties of the rendering loop\<close>

lemma visited_same_result:
  "visited D c x y \<Longrightarrow>
     apply_loop D c (fst x) (fst (snd x)) (snd (snd x)) = apply_loop D c (fst y) (fst (snd y)) (snd (snd y))"
proof (induction rule: visited.induct)
  case start
  show ?case by simp
next
  case (pass pf g s pf' g' s')
  then show ?case by (simp add: apply_loop.simps [of D c pf g s])
qed





lemma take_next_arrays:
  "take_next s = Inr (i, f, t, s') \<Longrightarrow>
     trajectory s' = trajectory s \<and> smoothed_trajectory s' = smoothed_trajectory s \<and>
     transforms s' = transforms s \<and> priv_trajectory s' = priv_trajectory s \<and>
     priv_raw_transforms s' = priv_raw_transforms s \<and> writer s' = writer s \<and>
     vid_cap s' = vid_cap s"
  by (auto simp: take_next_def deque_popleft_def Let_def split: list.splits option.splits if_splits)


lemma apply_body_Next:
  assumes "apply_body D c pf s = Inr (Next pf' g' s')"
  obtains sr i frame_i ti st where
    "apply_read D c s = Inr (g', sr)" "take_next sr = Inr (i, frame_i, ti, st)"
    "\<not> max_frames c \<le> enat i"
    "pf' = snd (layer c i (warp_frame c frame_i (build_transform ti)) pf)"
    "s' = write_frame (fst (layer c i (warp_frame c frame_i (build_transform ti)) pf)) st"
  using assms
  by (auto simp: apply_body_def split: sum.splits prod.splits if_splits)







section \<open>Where the border type is checked\<close>

lemma priv_gen_next_raw_transform_error:
  "priv_gen_next_raw_transform D s = Inl (e, s') \<Longrightarrow> \<not> border_error e"
  by (auto simp: priv_gen_next_raw_transform_def border_error_def Let_def
      split: list.splits option.splits prod.splits)

lemma priv_gen_transforms_error:
  "priv_gen_transforms D n s = Inl (e, s') \<Longrightarrow> \<not> border_error e"
  by (auto simp: priv_gen_transforms_def border_error_def Let_def split: option.splits if_splits)

lemma init_body_error:
  "init_body D n mf ga cur s = Inl (e, s') \<Longrightarrow> \<not> border_error e"
  by (auto simp: init_body_def Let_def split: sum.splits list.splits if_splits
      dest: priv_gen_next_raw_transform_error) (simp add: border_error_def)

lemma init_loop_error:
  "init_loop D n mf ga s = Inl (e, s') \<Longrightarrow> \<not> border_error e"
proof (induction D n mf ga s rule: init_loop.induct)
  case (1 D n mf ga s)
  show ?case
  proof (cases "vid_cap s")
    case Nil
    with "1.prems" show ?thesis by (simp add: init_loop.simps [of D n mf ga s])
  next
    case (Cons cur fs)
    show ?thesis
    proof (cases "init_body D n mf ga cur (s\<lparr>vid_cap := fs\<rparr>)")
      case (Inl x)
      with "1.prems" Cons have "init_body D n mf ga cur (s\<lparr>vid_cap := fs\<rparr>) = Inl (e, s')"
        by (simp add: init_loop.simps [of D n mf ga s])
      then show ?thesis by (rule init_body_error)
    next
      case (Inr x)
      obtain stop s2 where x: "x = (stop, s2)" by (cases x)
      show ?thesis
      proof (cases stop)
        case True
        with "1.prems" Cons Inr x show ?thesis by (simp add: init_loop.simps [of D n mf ga s])
      next
        case False
        with "1.prems" Cons Inr x have "init_loop D n mf ga s2 = Inl (e, s')"
          by (simp add: init_loop.simps [of D n mf ga s])
        with "1.IH" Cons Inr x False show ?thesis by simp
      qed
    qed
  qed
qed

lemma init_loop_keeps:
  "init_loop D n mf ga s = Inr s' \<Longrightarrow>
     length (vid_cap s') \<le> length (vid_cap s) \<and> writer s' = writer s"
proof (induction D n mf ga s rule: init_loop.induct)
  case (1 D n mf ga s)
  show ?case
  proof (cases "vid_cap s")
    case Nil
    with "1.prems" show ?thesis by (simp add: init_loop.simps [of D n mf ga s])
  next
    case (Cons cur fs)
    show ?thesis
    proof (cases "init_body D n mf ga cur (s\<lparr>vid_cap := fs\<rparr>)")
      case (Inl x)
      with "1.prems" Cons show ?thesis by (simp add: init_loop.simps [of D n mf ga s])
    next
      case (Inr x)
      obtain stop s2 where x: "x = (stop, s2)" by (cases x)
      have b: "vid_cap s2 = fs \<and> writer s2 = writer s"
        using Inr x
        by (auto simp: init_body_def Let_def split: sum.splits list.splits if_splits
            dest!: priv_gen_next_raw_transform_keeps)
      show ?thesis
      proof (cases stop)
        case True
        with "1.prems" Cons Inr x b show ?thesis by (simp add: init_loop.simps [of D n mf ga s])
      next
        case False
        with "1.prems" Cons Inr x have "init_loop D n mf ga s2 = Inr s'"
          by (simp add: init_loop.simps [of D n mf ga s])
        with "1.IH" [of cur fs x stop s2] Cons Inr x False
        have "length (vid_cap s') \<le> length (vid_cap s2) \<and> writer s' = writer s2" by simp
        with Cons b show ?thesis by simp
      qed
    qed
  qed
qed

lemma priv_init_trajectory_error:
  "priv_init_trajectory D n mf ga s = Inl (e, s') \<Longrightarrow> \<not> border_error e"
  by (auto simp: priv_init_trajectory_def read_frame_def Let_def
      split: list.splits sum.splits
      dest: init_loop_error priv_gen_transforms_error) (simp add: border_error_def)

lemma priv_init_trajectory_keeps:
  "priv_init_trajectory D n mf ga s = Inr s' \<Longrightarrow>
     length (vid_cap s') < length (vid_cap s) \<and> writer s' = writer s"
  by (auto simp: priv_init_trajectory_def read_frame_def Let_def
      split: list.splits sum.splits
      dest!: init_loop_keeps priv_gen_transforms_queues)

lemma apply_read_error:
  "apply_read D c s = Inl (e, s') \<Longrightarrow> \<not> border_error e"
  by (auto simp: apply_read_def read_frame_def Let_def split: list.splits sum.splits
      dest: priv_gen_next_raw_transform_error priv_gen_transforms_error)
    (simp add: border_error_def)

lemma take_next_error:
  "take_next s = Inl (e, s') \<Longrightarrow> \<not> border_error e"
  by (auto simp: take_next_def Let_def border_error_def split: option.splits if_splits)

lemma apply_body_error:
  "apply_body D c pf s = Inl (e, s') \<Longrightarrow> \<not> border_error e"
  by (auto simp: apply_body_def split: sum.splits prod.splits if_splits
      dest: apply_read_error take_next_error)

lemma apply_loop_error:
  "apply_loop D c pf g s = Inl (e, s') \<Longrightarrow> \<not> border_error e"
proof (induction D c pf g s rule: apply_loop.induct)
  case (1 D c pf g s)
  show ?case
  proof (cases "0 < length (items (frame_queue s)) \<or> g")
    case False
    with "1.prems" show ?thesis by (simp add: apply_loop.simps [of D c pf g s])
  next
    case True
    show ?thesis
    proof (cases "apply_body D c pf s")
      case (Inl x)
      with "1.prems" True have "apply_body D c pf s = Inl (e, s')"
        by (simp add: apply_loop.simps [of D c pf g s])
      then show ?thesis by (rule apply_body_error)
    next
      case (Inr out)
      show ?thesis
      proof (cases out)
        case (Break s2)
        with "1.prems" True Inr show ?thesis by (simp add: apply_loop.simps [of D c pf g s])
      next
        case (Next pf' g' s2)
        with "1.prems" True Inr have "apply_loop D c pf' g' s2 = Inl (e, s')"
          by (simp add: apply_loop.simps [of D c pf g s])
        with "1.IH" True Inr Next show ?thesis by simp
      qed
    qed
  qed
qed

lemma apply_setup_border_type:
  "bt \<in> set [''black'', ''reflect'', ''replicate''] \<Longrightarrow>
     apply_setup mf n bt bs lf s = Inl (e, s') \<Longrightarrow> \<not> border_error e"
  by (auto simp: apply_setup_def border_modes_def border_error_def
      split: if_splits option.splits prod.splits)

lemma priv_apply_transforms_invalid:
  "(priv_apply_transforms D mf n bt bs lf s = Inl (ValueError ''Invalid border type'', s')) =
     (bt \<notin> set [''black'', ''reflect'', ''replicate'', ''trail''] \<and> s' = s)"
proof
  assume a: "priv_apply_transforms D mf n bt bs lf s = Inl (ValueError ''Invalid border type'', s')"
  show "bt \<notin> set [''black'', ''reflect'', ''replicate'', ''trail''] \<and> s' = s"
  proof (rule ccontr)
    assume n: "\<not> (bt \<notin> set [''black'', ''reflect'', ''replicate'', ''trail''] \<and> s' = s)"
    show False
    proof (cases "bt \<in> set [''black'', ''reflect'', ''replicate'', ''trail'']")
      case False
      with a n show False by (simp add: priv_apply_transforms_def apply_setup_def)
    next
      case True
      then have "apply_setup mf n bt bs lf s \<noteq> Inl (ValueError ''Invalid border type'', s')"
        by (auto simp: apply_setup_def split: option.splits prod.splits)
      with a show False
        using apply_loop_error [of D _ _ True _ "ValueError ''Invalid border type''" s']
        by (auto simp: priv_apply_transforms_def border_error_def
            split: sum.splits prod.splits option.splits)
    qed
  qed
next
  assume "bt \<notin> set [''black'', ''reflect'', ''replicate'', ''trail''] \<and> s' = s"
  then show "priv_apply_transforms D mf n bt bs lf s = Inl (ValueError ''Invalid border type'', s')"
    by (simp add: priv_apply_transforms_def apply_setup_def)
qed

lemma priv_apply_transforms_border_type:
  assumes "bt \<in> set [''black'', ''reflect'', ''replicate'']"
    and "priv_apply_transforms D mf n bt bs lf s = Inl (e, s')"
  shows "\<not> border_error e"
proof (cases "apply_setup mf n bt bs lf s")
  case (Inl x)
  with assms(2) have "apply_setup mf n bt bs lf s = Inl (e, s')"
    by (simp add: priv_apply_transforms_def)
  with assms(1) show ?thesis by (rule apply_setup_border_type)
next
  case (Inr x)
  obtain c pf s1 where x: "x = (c, pf, s1)" by (cases x)
  show ?thesis
  proof (cases "apply_loop D c pf True s1")
    case (Inl y)
    with assms(2) Inr x have "apply_loop D c pf True s1 = Inl (e, s')"
      by (simp add: priv_apply_transforms_def)
    then show ?thesis by (rule apply_loop_error)
  next
    case (Inr s2)
    with assms(2) \<open>apply_setup mf n bt bs lf s = Inr x\<close> x show ?thesis
      by (auto simp: priv_apply_transforms_def border_error_def split: option.splits)
  qed
qed


text \<open>
  Claim C4, as amended. A \<^verbatim>\<open>stabilize\<close> run that recomputes the transforms raises the
  configuration error exactly when the trajectory initialisation has completed and the
  border type is none of black, reflect, replicate and trail. The error leaves the object
  as the initialisation left it: frames have been read from the source, and nothing has
  been rendered or written. For black, reflect and replicate a run never fails on the
  border type.
\<close>

theorem border_type_checked_after_analysis:
  "((\<exists>s'. stabilize D src n mf bt bs lf False s = Inl (ValueError ''Invalid border type'', s')) \<longleftrightarrow>
      bt \<notin> set [''black'', ''reflect'', ''replicate'', ''trail''] \<and>
      (\<exists>s1. priv_init_trajectory D n mf False (start_run src n s) = Inr s1)) \<and>
   (\<forall>s'. stabilize D src n mf bt bs lf False s = Inl (ValueError ''Invalid border type'', s') \<longrightarrow>
      priv_init_trajectory D n mf False (start_run src n s) = Inr s' \<and>
      length (vid_cap s') < length src \<and> writer s' = writer s) \<and>
   (bt \<in> set [''black'', ''reflect'', ''replicate''] \<longrightarrow>
      (\<forall>e s'. stabilize D src n mf bt bs lf False s = Inl (e, s') \<longrightarrow> \<not> border_error e))"
proof -
  let ?init = "priv_init_trajectory D n mf False (start_run src n s)"
  have ve: "border_error (ValueError ''Invalid border type'')"
    by (simp add: border_error_def)
  have stab: "stabilize D src n mf bt bs lf False s =
      (case ?init of Inl e \<Rightarrow> Inl e | Inr s2 \<Rightarrow> priv_apply_transforms D mf n bt bs lf s2)"
    by (simp add: stabilize_def)
  have raised: "?init = Inr s' \<and> bt \<notin> set [''black'', ''reflect'', ''replicate'', ''trail'']"
    if "stabilize D src n mf bt bs lf False s = Inl (ValueError ''Invalid border type'', s')" for s'
  proof (cases ?init)
    case (Inl x)
    with that have "?init = Inl (ValueError ''Invalid border type'', s')"
      by (simp add: stab)
    then show ?thesis using priv_init_trajectory_error ve by blast
  next
    case (Inr s2)
    with that have "priv_apply_transforms D mf n bt bs lf s2 =
        Inl (ValueError ''Invalid border type'', s')"
      by (simp add: stab)
    then show ?thesis using Inr by (simp add: priv_apply_transforms_invalid)
  qed
  have first: "(\<exists>s'. stabilize D src n mf bt bs lf False s = Inl (ValueError ''Invalid border type'', s')) \<longleftrightarrow>
      bt \<notin> set [''black'', ''reflect'', ''replicate'', ''trail''] \<and> (\<exists>s1. ?init = Inr s1)"
  proof
    assume "\<exists>s'. stabilize D src n mf bt bs lf False s = Inl (ValueError ''Invalid border type'', s')"
    then show "bt \<notin> set [''black'', ''reflect'', ''replicate'', ''trail''] \<and> (\<exists>s1. ?init = Inr s1)"
      using raised by blast
  next
    assume a: "bt \<notin> set [''black'', ''reflect'', ''replicate'', ''trail''] \<and> (\<exists>s1. ?init = Inr s1)"
    then obtain s1 where "?init = Inr s1" by blast
    with a have "stabilize D src n mf bt bs lf False s = Inl (ValueError ''Invalid border type'', s1)"
      by (simp add: stab priv_apply_transforms_invalid)
    then show "\<exists>s'. stabilize D src n mf bt bs lf False s = Inl (ValueError ''Invalid border type'', s')"
      by blast
  qed
  have second: "?init = Inr s' \<and> length (vid_cap s') < length src \<and> writer s' = writer s"
    if "stabilize D src n mf bt bs lf False s = Inl (ValueError ''Invalid border type'', s')" for s'
  proof -
    from raised [OF that] have i: "?init = Inr s'" by simp
    from priv_init_trajectory_keeps [OF i] show ?thesis
      using i by (simp add: start_run_def)
  qed
  have third: "\<not> border_error e"
    if "bt \<in> set [''black'', ''reflect'', ''replicate'']"
      and "stabilize D src n mf bt bs lf False s = Inl (e, s')" for e s'
  proof (cases ?init)
    case (Inl x)
    with that(2) have "?init = Inl (e, s')" by (simp add: stab)
    then show ?thesis by (rule priv_init_trajectory_error)
  next
    case (Inr s2)
    with that(2) have "priv_apply_transforms D mf n bt bs lf s2 = Inl (e, s')"
      by (simp add: stab)
    with that(1) show ?thesis by (rule priv_apply_transforms_border_type)
  qed
  from first second third show ?thesis by blast
qed

theorem border_type_checked_after_analysis_witness:
  "(\<exists>s'. stabilize (fixed_fit None) [F 0, F 1, F 2] 2 \<infinity> ''nope'' 0 None False init_vidstab =
        Inl (ValueError ''Invalid border type'', s') \<and>
      priv_init_trajectory (fixed_fit None) 2 \<infinity> False (start_run [F 0, F 1, F 2] 2 init_vidstab) =
        Inr s' \<and>
      length (vid_cap s') < length [F 0, F 1, F 2] \<and> writer s' = None) \<and>
   (\<exists>s'. stabilize (fixed_fit None) [F 0, F 1, F 2, F 3] 2 \<infinity> ''reflect'' 0 None False
        init_vidstab = Inr s')"
proof -
  have i: "\<exists>s1. priv_init_trajectory (fixed_fit None) 2 \<infinity> False
      (start_run [F 0, F 1, F 2] 2 init_vidstab) = Inr s1"
    by (simp add: run_defs)
  have w: "writer init_vidstab = None"
    by (simp add: init_vidstab_def)
  have r: "\<exists>s'. stabilize (fixed_fit None) [F 0, F 1, F 2, F 3] 2 \<infinity> ''reflect'' 0 None False
        init_vidstab = Inr s'"
    by (simp add: run_defs)
  show ?thesis
    using border_type_checked_after_analysis [of "fixed_fit None" "[F 0, F 1, F 2]" 2 \<infinity>
        "''nope''" 0 None init_vidstab] i w r
    by auto
qed

section \<open>The frame queue as a window on the source\<close>


lemma window_of_length:
  assumes "window_of src s"
  shows "length (items (frame_queue s)) + length (vid_cap s) \<le> length src"
proof -
  have "length (items (frame_queue s) @ vid_cap s) = length (drop (pos src s) src)"
    using assms by (simp add: window_of_def)
  then show ?thesis by (simp add: pos_def)
qed

lemma push_window:
  assumes w: "window_of src s" and v: "vid_cap s = f # fs"
    and v': "vid_cap s' = fs" and q': "frame_queue s' = deque_append (frame_queue s) f"
  shows "window_of src s' \<and> pos src s \<le> pos src s'"
proof -
  let ?q = "frame_queue s"
  let ?k = "pos src s"
  have len: "length (items ?q) + Suc (length fs) \<le> length src"
    using window_of_length [OF w] v by simp
  have eq: "items ?q @ f # fs = drop ?k src"
    using w v by (simp add: window_of_def)
  have k: "?k = length src - (length (items ?q) + Suc (length fs))"
    using v by (simp add: pos_def)
  have tl_eq: "tl (items ?q @ f # fs) = drop (Suc ?k) src"
    using eq by (simp add: drop_Suc tl_drop)
  show ?thesis
  proof (cases "maxlen ?q")
    case None
    then have i: "items (frame_queue s') = items ?q @ [f]" and m: "maxlen (frame_queue s') = None"
      using q' by (simp_all add: deque_append_def)
    have p: "pos src s' = ?k" using i v' k by (simp add: pos_def)
    show ?thesis using i m p eq v' by (simp add: window_of_def)
  next
    case (Some m)
    have bound: "length (items ?q) \<le> m" using w Some by (simp add: window_of_def)
    show ?thesis
    proof (cases "m = 0")
      case True
      then have e: "items ?q = []" using bound by simp
      have i: "items (frame_queue s') = []" and m': "maxlen (frame_queue s') = Some m"
        using q' Some True e by (simp_all add: deque_append_def)
      have p: "pos src s' = Suc ?k" using i v' k e len by (simp add: pos_def)
      show ?thesis using i m' p tl_eq e v' by (simp add: window_of_def)
    next
      case False
      show ?thesis
      proof (cases "length (items ?q) < m")
        case True
        then have i: "items (frame_queue s') = items ?q @ [f]"
          and m': "maxlen (frame_queue s') = Some m"
          using q' Some False by (simp_all add: deque_append_def)
        have p: "pos src s' = ?k" using i v' k by (simp add: pos_def)
        show ?thesis using i m' p eq v' True by (simp add: window_of_def)
      next
        case full: False
        then have ne: "items ?q \<noteq> []" using False by auto
        have i: "items (frame_queue s') = tl (items ?q) @ [f]"
          and m': "maxlen (frame_queue s') = Some m"
          using q' Some False full by (simp_all add: deque_append_def)
        have p: "pos src s' = Suc ?k" using i v' k ne len by (simp add: pos_def)
        have "tl (items ?q) @ f # fs = drop (Suc ?k) src" using tl_eq ne by simp
        then show ?thesis using i m' p v' bound ne by (simp add: window_of_def)
      qed
    qed
  qed
qed

lemma pop_window:
  assumes w: "window_of src s" and d: "deque_popleft (frame_queue s) = Some (x, q)"
    and v': "vid_cap s' = vid_cap s" and q': "frame_queue s' = q"
  shows "window_of src s' \<and> pos src s' = Suc (pos src s) \<and> pos src s < length src \<and>
    x = src ! pos src s"
proof -
  let ?k = "pos src s"
  obtain xs where i: "items (frame_queue s) = x # xs" and q: "q = (frame_queue s)\<lparr>items := xs\<rparr>"
    using d by (auto simp: deque_popleft_def split: list.splits)
  have len: "Suc (length xs) + length (vid_cap s) \<le> length src"
    using window_of_length [OF w] i by simp
  have eq: "x # xs @ vid_cap s = drop ?k src"
    using w i by (simp add: window_of_def)
  have k: "?k = length src - (Suc (length xs) + length (vid_cap s))"
    using i by (simp add: pos_def)
  then have lt: "?k < length src" using len by simp
  have x: "x = src ! ?k"
    using eq lt by (metis Cons_nth_drop_Suc list.inject)
  have tl_eq: "xs @ vid_cap s = drop (Suc ?k) src"
    using eq lt by (metis Cons_nth_drop_Suc list.inject)
  have p: "pos src s' = Suc ?k"
    using q q' v' k len by (simp add: pos_def)
  have "window_of src s'"
    using w i q q' v' p tl_eq by (auto simp: window_of_def split: option.splits)
  with p lt x show ?thesis by simp
qed

lemma window_of_same:
  "frame_queue s' = frame_queue s \<Longrightarrow> vid_cap s' = vid_cap s \<Longrightarrow>
     window_of src s' = window_of src s \<and> pos src s' = pos src s"
  by (simp add: window_of_def pos_def cong: option.case_cong)

lemma start_run_window: "window_of src (start_run src n s) \<and> pos src (start_run src n s) = 0"
  by (simp add: window_of_def pos_def start_run_def new_deque_def)

lemma emitted_write_frame: "emitted (write_frame t s) = emitted s @ [t]"
  by (simp add: emitted_def write_frame_def split: option.splits)

lemma emitted_writer: "writer s' = writer s \<Longrightarrow> emitted s' = emitted s"
  by (simp add: emitted_def)

lemma priv_gen_next_raw_transform_fail:
  "priv_gen_next_raw_transform D s = Inl (e, s') \<Longrightarrow> s' = s"
  by (auto simp: priv_gen_next_raw_transform_def Let_def
      split: list.splits option.splits prod.splits)

lemma priv_gen_transforms_fail:
  "priv_gen_transforms D n s = Inl (e, s') \<Longrightarrow>
     vid_cap s' = vid_cap s \<and> writer s' = writer s \<and> frame_queue s' = frame_queue s"
  by (auto simp: priv_gen_transforms_def Let_def split: option.splits if_splits)

lemma init_body_Inr:
  "init_body D n mf ga cur s = Inr (stop, s') \<Longrightarrow>
     vid_cap s' = vid_cap s \<and> frame_queue s' = deque_append (frame_queue s) cur \<and>
     writer s' = writer s"
  by (auto simp: init_body_def Let_def split: sum.splits list.splits if_splits
      dest!: priv_gen_next_raw_transform_keeps)

lemma init_body_Inl:
  "init_body D n mf ga cur s = Inl (e, s') \<Longrightarrow> vid_cap s' = vid_cap s \<and> writer s' = writer s"
  by (auto simp: init_body_def Let_def split: sum.splits list.splits if_splits
      dest!: priv_gen_next_raw_transform_keeps priv_gen_next_raw_transform_fail)

lemma init_loop_window:
  "window_of src s \<Longrightarrow> init_loop D n mf ga s = Inr s' \<Longrightarrow>
     window_of src s' \<and> writer s' = writer s \<and> length (vid_cap s') \<le> length (vid_cap s)"
proof (induction D n mf ga s rule: init_loop.induct)
  case (1 D n mf ga s)
  show ?case
  proof (cases "vid_cap s")
    case Nil
    with "1.prems" show ?thesis by (simp add: init_loop.simps [of D n mf ga s])
  next
    case (Cons cur fs)
    show ?thesis
    proof (cases "init_body D n mf ga cur (s\<lparr>vid_cap := fs\<rparr>)")
      case (Inl x)
      with "1.prems" Cons show ?thesis by (simp add: init_loop.simps [of D n mf ga s])
    next
      case (Inr x)
      obtain stop s2 where x: "x = (stop, s2)" by (cases x)
      have b: "vid_cap s2 = fs \<and> frame_queue s2 = deque_append (frame_queue s) cur \<and>
          writer s2 = writer s"
        using init_body_Inr [of D n mf ga cur "s\<lparr>vid_cap := fs\<rparr>" stop s2] Inr x by simp
      have w2: "window_of src s2"
        using push_window [OF "1.prems"(1) Cons, of s2] b by simp
      show ?thesis
      proof (cases stop)
        case True
        with "1.prems" Cons Inr x b w2 show ?thesis
          by (simp add: init_loop.simps [of D n mf ga s])
      next
        case False
        with "1.prems" Cons Inr x have "init_loop D n mf ga s2 = Inr s'"
          by (simp add: init_loop.simps [of D n mf ga s])
        with "1.IH" [of cur fs x stop s2] Cons Inr x False w2
        have "window_of src s' \<and> writer s' = writer s2 \<and> length (vid_cap s') \<le> length (vid_cap s2)"
          by simp
        with Cons b show ?thesis by simp
      qed
    qed
  qed
qed

lemma init_loop_fail:
  "init_loop D n mf ga s = Inl (e, s') \<Longrightarrow>
     writer s' = writer s \<and> length (vid_cap s') \<le> length (vid_cap s)"
proof (induction D n mf ga s rule: init_loop.induct)
  case (1 D n mf ga s)
  show ?case
  proof (cases "vid_cap s")
    case Nil
    with "1.prems" show ?thesis by (simp add: init_loop.simps [of D n mf ga s])
  next
    case (Cons cur fs)
    show ?thesis
    proof (cases "init_body D n mf ga cur (s\<lparr>vid_cap := fs\<rparr>)")
      case (Inl x)
      with "1.prems" Cons have "init_body D n mf ga cur (s\<lparr>vid_cap := fs\<rparr>) = Inl (e, s')"
        by (simp add: init_loop.simps [of D n mf ga s])
      from init_body_Inl [OF this] Cons show ?thesis by simp
    next
      case (Inr x)
      obtain stop s2 where x: "x = (stop, s2)" by (cases x)
      have b: "vid_cap s2 = fs \<and> writer s2 = writer s"
        using init_body_Inr [of D n mf ga cur "s\<lparr>vid_cap := fs\<rparr>" stop s2] Inr x by simp
      show ?thesis
      proof (cases stop)
        case True
        with "1.prems" Cons Inr x show ?thesis by (simp add: init_loop.simps [of D n mf ga s])
      next
        case False
        with "1.prems" Cons Inr x have "init_loop D n mf ga s2 = Inl (e, s')"
          by (simp add: init_loop.simps [of D n mf ga s])
        with "1.IH" [of cur fs x stop s2] Cons Inr x False
        have "writer s' = writer s2 \<and> length (vid_cap s') \<le> length (vid_cap s2)" by simp
        with Cons b show ?thesis by simp
      qed
    qed
  qed
qed

lemma priv_init_trajectory_window:
  assumes "window_of src s" and "priv_init_trajectory D n mf ga s = Inr s'"
  shows "window_of src s' \<and> writer s' = writer s \<and> length (vid_cap s') < length (vid_cap s)"
proof -
  from assms(2) obtain f fs s3 where v: "vid_cap s = f # fs"
    and l: "init_loop D n mf ga
        (s\<lparr>vid_cap := fs, prev_kps := Some (detect D (CvtColor f)),
           frame_queue := deque_append (frame_queue s) f,
           prev_gray := Some (CvtColor f)\<rparr>) = Inr s3"
    and g: "priv_gen_transforms D n s3 = Inr s'"
    by (auto simp: priv_init_trajectory_def read_frame_def Let_def split: list.splits sum.splits)
  let ?s2 = "s\<lparr>vid_cap := fs, prev_kps := Some (detect D (CvtColor f)),
           frame_queue := deque_append (frame_queue s) f, prev_gray := Some (CvtColor f)\<rparr>"
  have w2: "window_of src ?s2" using push_window [OF assms(1) v, of ?s2] by simp
  from init_loop_window [OF w2 l]
  have 3: "window_of src s3" "writer s3 = writer s" "length (vid_cap s3) \<le> length fs" by simp_all
  from priv_gen_transforms_queues [OF g] 3 v show ?thesis
    using window_of_same [of s' s3 src] by simp
qed

lemma priv_init_trajectory_fail:
  assumes "priv_init_trajectory D n mf ga s = Inl (e, s')"
  shows "writer s' = writer s \<and> length (vid_cap s') \<le> length (vid_cap s) \<and>
    (vid_cap s \<noteq> [] \<longrightarrow> length (vid_cap s') < length (vid_cap s))"
proof (cases "vid_cap s")
  case Nil
  with assms show ?thesis by (simp add: priv_init_trajectory_def read_frame_def)
next
  case (Cons f fs)
  let ?s2 = "s\<lparr>vid_cap := fs, prev_kps := Some (detect D (CvtColor f)),
           frame_queue := deque_append (frame_queue s) f, prev_gray := Some (CvtColor f)\<rparr>"
  show ?thesis
  proof (cases "init_loop D n mf ga ?s2")
    case (Inl x)
    with assms Cons have "init_loop D n mf ga ?s2 = Inl (e, s')"
      by (simp add: priv_init_trajectory_def read_frame_def Let_def)
    from init_loop_fail [OF this] Cons show ?thesis by simp
  next
    case (Inr s3)
    with assms Cons have g: "priv_gen_transforms D n s3 = Inl (e, s')"
      by (simp add: priv_init_trajectory_def read_frame_def Let_def)
    have "writer s3 = writer ?s2 \<and> length (vid_cap s3) \<le> length (vid_cap ?s2)"
      using init_body_vid_cap init_loop_keeps [OF Inr] by simp
    with priv_gen_transforms_fail [OF g] Cons show ?thesis by simp
  qed
qed

lemma apply_setup_window:
  assumes "window_of src s" and "apply_setup mf n bt bs lf s = Inr (c, pf, s1)"
  shows "window_of src s1 \<and> 1 \<le> pos src s1 \<and> writer s1 = writer s \<and> vid_cap s1 = vid_cap s \<and>
    pos src s < length src \<and> pf = src ! pos src s"
proof -
  from assms(2) obtain q where d: "deque_popleft (frame_queue s) = Some (pf, q)"
    and s1: "s1 = s\<lparr>frame_queue := q\<rparr>"
    by (auto simp: apply_setup_def split: if_splits option.splits prod.splits)
  from pop_window [OF assms(1) d, of s1] s1 show ?thesis by simp
qed

lemma apply_setup_fail: "apply_setup mf n bt bs lf s = Inl (e, s') \<Longrightarrow> s' = s"
  by (auto simp: apply_setup_def split: if_splits option.splits prod.splits)

lemma apply_read_Inr:
  assumes "apply_read D c s = Inr (g, s')"
  shows "writer s' = writer s \<and>
    ((vid_cap s = [] \<and> s' = s \<and> \<not> g) \<or>
     (\<exists>f fs. vid_cap s = f # fs \<and> vid_cap s' = fs \<and>
        frame_queue s' = deque_append (frame_queue s) f \<and> g))"
  using assms
  by (auto simp: apply_read_def read_frame_def Let_def split: list.splits sum.splits
      dest!: priv_gen_next_raw_transform_keeps priv_gen_transforms_queues)

lemma apply_read_window:
  assumes "window_of src s" and "apply_read D c s = Inr (g, s')"
  shows "window_of src s' \<and> pos src s \<le> pos src s' \<and> writer s' = writer s \<and>
    length (vid_cap s') \<le> length (vid_cap s)"
proof -
  from apply_read_Inr [OF assms(2)] consider
    "writer s' = writer s" "s' = s"
    | f fs where "writer s' = writer s" "vid_cap s = f # fs" "vid_cap s' = fs"
        "frame_queue s' = deque_append (frame_queue s) f"
    by blast
  then show ?thesis
  proof cases
    case 1
    with assms(1) show ?thesis by simp
  next
    case 2
    from push_window [OF assms(1) 2(2) 2(3) 2(4)] 2 show ?thesis by simp
  qed
qed

lemma apply_read_fail:
  "apply_read D c s = Inl (e, s') \<Longrightarrow>
     writer s' = writer s \<and> length (vid_cap s') \<le> length (vid_cap s)"
  by (auto simp: apply_read_def read_frame_def Let_def split: list.splits sum.splits
      dest!: priv_gen_next_raw_transform_keeps priv_gen_transforms_queues
        priv_gen_next_raw_transform_fail priv_gen_transforms_fail)

lemma take_next_window:
  assumes "window_of src s" and "take_next s = Inr (i, f, t, s')"
  shows "window_of src s' \<and> pos src s' = Suc (pos src s) \<and> pos src s < length src \<and>
    f = src ! pos src s \<and> writer s' = writer s \<and> vid_cap s' = vid_cap s"
proof -
  from assms(2) obtain inds q where
    d: "deque_popleft (frame_queue (s\<lparr>frame_queue_inds := inds\<rparr>)) = Some (f, q)"
    and s': "s' = s\<lparr>frame_queue_inds := inds, frame_queue := q\<rparr>"
    by (auto simp: take_next_def Let_def split: option.splits if_splits)
  from d have d': "deque_popleft (frame_queue s) = Some (f, q)" by simp
  from pop_window [OF assms(1) d', of s'] s' show ?thesis by simp
qed

lemma take_next_fail:
  "take_next s = Inl (e, s') \<Longrightarrow> writer s' = writer s \<and> vid_cap s' = vid_cap s"
  by (auto simp: take_next_def deque_popleft_def Let_def
      split: list.splits option.splits if_splits)

lemma write_frame_window:
  "window_of src (write_frame t s) = window_of src s \<and> pos src (write_frame t s) = pos src s"
  using window_of_same [of "write_frame t s" s src] by (simp add: write_frame_size)

lemma apply_body_window:
  assumes "window_of src s" and "apply_body D c pf s = Inr (Next pf' g' s')"
  shows "window_of src s' \<and> Suc (pos src s) \<le> pos src s' \<and>
    (\<exists>t. emitted s' = emitted s @ [t]) \<and>
    (\<exists>sr i frame_i ti st. apply_read D c s = Inr (g', sr) \<and>
       take_next sr = Inr (i, frame_i, ti, st) \<and> pos src s \<le> pos src sr \<and>
       pos src sr < length src \<and> frame_i = src ! pos src sr)"
proof -
  from assms(2) obtain sr i frame_i ti st where
    r: "apply_read D c s = Inr (g', sr)" and t: "take_next sr = Inr (i, frame_i, ti, st)"
    and s': "s' = write_frame (fst (layer c i (warp_frame c frame_i (build_transform ti)) pf)) st"
    by (rule apply_body_Next)
  note wr = apply_read_window [OF assms(1) r]
  then have "window_of src sr" by simp
  note wt = take_next_window [OF this t]
  have "emitted st = emitted s"
    using wr wt emitted_writer [of st s] by simp
  then have e: "emitted s' = emitted s @ [fst (layer c i (warp_frame c frame_i (build_transform ti)) pf)]"
    using s' by (simp add: emitted_write_frame)
  have "window_of src s' \<and> Suc (pos src s) \<le> pos src s'"
    using wr wt s' by (simp add: write_frame_window)
  with e r t wr wt show ?thesis by blast
qed

lemma apply_body_stops:
  assumes "apply_body D c pf s = Inl (e, s') \<or> apply_body D c pf s = Inr (Break s')"
  shows "emitted s' = emitted s \<and> length (vid_cap s') \<le> length (vid_cap s)"
proof (cases "apply_read D c s")
  case (Inl x)
  with assms have "apply_read D c s = Inl (e, s')" by (auto simp: apply_body_def)
  from apply_read_fail [OF this] show ?thesis using emitted_writer [of s' s] by simp
next
  case (Inr x)
  obtain g sr where x: "x = (g, sr)" by (cases x)
  have r: "writer sr = writer s \<and> length (vid_cap sr) \<le> length (vid_cap s)"
    using apply_read_Inr [of D c s g sr] Inr x by auto
  show ?thesis
  proof (cases "take_next sr")
    case (Inl y)
    with assms Inr x have "take_next sr = Inl (e, s')" by (auto simp: apply_body_def)
    from take_next_fail [OF this] r show ?thesis using emitted_writer [of s' s] by simp
  next
    case (Inr y)
    obtain i f t st where y: "y = (i, f, t, st)" by (cases y)
    have "st = s'"
      using assms \<open>apply_read D c s = Inr x\<close> x Inr y
      by (auto simp: apply_body_def split: if_splits prod.splits)
    with take_next_arrays [of sr i f t st] Inr y r show ?thesis
      using emitted_writer [of s' s] by simp
  qed
qed

lemma pass_inv_final:
  assumes "pass_inv E src s" and "emitted s' = emitted s"
    and "length (vid_cap s') \<le> length (vid_cap s)"
  shows "emitted_below E (length src - length (vid_cap s')) s'"
proof -
  have "pos src s \<le> length src - length (vid_cap s)" by (simp add: pos_def)
  also have "\<dots> \<le> length src - length (vid_cap s')" using assms(3) by simp
  finally show ?thesis using assms(1,2) by (simp add: pass_inv_def emitted_below_def)
qed

lemma take_length_le:
  assumes "take (length E) xs = E"
  shows "length E \<le> length xs"
proof -
  have "length (take (length E) xs) = length E" using assms by simp
  then show ?thesis by simp
qed

lemma apply_body_pass_inv:
  assumes "pass_inv E src s" and "apply_body D c pf s = Inr (Next pf' g' s')"
  shows "pass_inv E src s'"
proof -
  from apply_body_window [OF _ assms(2), of src] assms(1)
  obtain t where "window_of src s'" "Suc (pos src s) \<le> pos src s'" "emitted s' = emitted s @ [t]"
    by (auto simp: pass_inv_def)
  with assms(1) show ?thesis by (auto simp: pass_inv_def emitted_below_def dest: take_length_le)
qed

lemma apply_loop_final:
  "pass_inv E src s \<Longrightarrow>
     emitted_below E (length src - length (vid_cap (final_state (apply_loop D c pf g s))))
       (final_state (apply_loop D c pf g s))"
proof (induction D c pf g s rule: apply_loop.induct)
  case (1 D c pf g s)
  show ?case
  proof (cases "0 < length (items (frame_queue s)) \<or> g")
    case False
    then have "apply_loop D c pf g s = Inr s" by (subst apply_loop.simps) simp
    with pass_inv_final [OF "1.prems", of s] show ?thesis by (simp add: final_state_def)
  next
    case True
    show ?thesis
    proof (cases "apply_body D c pf s")
      case (Inl x)
      obtain e s' where x: "x = (e, s')" by (cases x)
      have l: "apply_loop D c pf g s = Inl (e, s')"
        using True Inl x by (simp add: apply_loop.simps [of D c pf g s])
      from apply_body_stops [of D c pf s e s'] Inl x
      have "emitted s' = emitted s \<and> length (vid_cap s') \<le> length (vid_cap s)" by simp
      with pass_inv_final [OF "1.prems", of s'] l show ?thesis by (simp add: final_state_def)
    next
      case (Inr out)
      show ?thesis
      proof (cases out)
        case (Break s')
        have l: "apply_loop D c pf g s = Inr s'"
          using True Inr Break by (simp add: apply_loop.simps [of D c pf g s])
        from apply_body_stops [of D c pf s _ s'] Inr Break
        have "emitted s' = emitted s \<and> length (vid_cap s') \<le> length (vid_cap s)" by simp
        with pass_inv_final [OF "1.prems", of s'] l show ?thesis by (simp add: final_state_def)
      next
        case (Next pf' g' s')
        have l: "apply_loop D c pf g s = apply_loop D c pf' g' s'"
          using True Inr Next by (simp add: apply_loop.simps [of D c pf g s])
        have "pass_inv E src s'"
          using apply_body_pass_inv [OF "1.prems"] Inr Next by simp
        with "1.IH" [of out pf' g' s'] True Inr Next l show ?thesis by simp
      qed
    qed
  qed
qed

lemma visited_pass_inv:
  "visited D c x y \<Longrightarrow> pass_inv E src (snd (snd x)) \<Longrightarrow> 1 \<le> pos src (snd (snd x)) \<Longrightarrow>
     pass_inv E src (snd (snd y)) \<and> 1 \<le> pos src (snd (snd y))"
proof (induction rule: visited.induct)
  case start
  then show ?case by simp
next
  case (pass pf g s pf' g' s')
  then have i: "pass_inv E src s" and p: "1 \<le> pos src s" by simp_all
  from apply_body_pass_inv [OF i pass.hyps(3)] apply_body_window [OF _ pass.hyps(3), of src] i p
  show ?case by (auto simp: pass_inv_def)
qed

lemma priv_apply_transforms_final:
  assumes "window_of src s" and "length (vid_cap s) < length src"
  shows "emitted_below (emitted s)
     (length src - length (vid_cap (final_state (priv_apply_transforms D mf n bt bs lf s))))
     (final_state (priv_apply_transforms D mf n bt bs lf s))"
proof (cases "apply_setup mf n bt bs lf s")
  case (Inl x)
  obtain e s' where x: "x = (e, s')" by (cases x)
  with Inl have "s' = s" using apply_setup_fail by blast
  with Inl x have "final_state (priv_apply_transforms D mf n bt bs lf s) = s"
    by (simp add: priv_apply_transforms_def final_state_def)
  with assms(2) show ?thesis by (simp add: emitted_below_def)
next
  case (Inr x)
  obtain c pf s1 where x: "x = (c, pf, s1)" by (cases x)
  from apply_setup_window [OF assms(1)] Inr x
  have w: "window_of src s1" "1 \<le> pos src s1" "writer s1 = writer s" by simp_all
  have e: "emitted s1 = emitted s" using w(3) by (rule emitted_writer)
  have "pass_inv (emitted s) src s1"
    using w e by (simp add: pass_inv_def emitted_below_def)
  from apply_loop_final [OF this, of D c pf True]
  have f: "emitted_below (emitted s)
      (length src - length (vid_cap (final_state (apply_loop D c pf True s1))))
      (final_state (apply_loop D c pf True s1))" .
  have "final_state (priv_apply_transforms D mf n bt bs lf s) =
      final_state (apply_loop D c pf True s1)"
    using Inr x
    by (simp add: priv_apply_transforms_def final_state_def split: sum.splits option.splits)
  with f show ?thesis by simp
qed

lemma stabilize_final:
  assumes "src \<noteq> []"
  shows "emitted_below (emitted s)
     (length src - length (vid_cap (final_state (stabilize D src n mf bt bs lf False s))))
     (final_state (stabilize D src n mf bt bs lf False s))"
proof (cases "priv_init_trajectory D n mf False (start_run src n s)")
  case (Inl x)
  obtain e s' where x: "x = (e, s')" by (cases x)
  from priv_init_trajectory_fail [of D n mf False "start_run src n s" e s'] Inl x assms
  have "writer s' = writer s \<and> length (vid_cap s') < length src"
    by (simp add: start_run_def)
  moreover have "final_state (stabilize D src n mf bt bs lf False s) = s'"
    using Inl x by (simp add: stabilize_def final_state_def)
  moreover have "0 < length src - length (vid_cap s') \<Longrightarrow>
      length (emitted s) < length (emitted s) + (length src - length (vid_cap s'))"
    by simp
  ultimately show ?thesis
    using emitted_writer [of s' s] by (simp add: emitted_below_def)
next
  case (Inr s1)
  from priv_init_trajectory_window [of src "start_run src n s" D n mf False s1] Inr
    start_run_window [of src n s]
  have w: "window_of src s1" "writer s1 = writer s" "length (vid_cap s1) < length src"
    by (simp_all add: start_run_def)
  have e: "emitted s1 = emitted s" using w(2) by (rule emitted_writer)
  have "stabilize D src n mf bt bs lf False s = priv_apply_transforms D mf n bt bs lf s1"
    using Inr by (simp add: stabilize_def)
  with priv_apply_transforms_final [OF w(1) w(3), of D mf n bt bs lf] e show ?thesis by simp
qed

text \<open>
  Claim C10. A \<^verbatim>\<open>stabilize\<close> run on a source that has a frame emits fewer frames than
  it reads, whether it ends normally or on an error; and the frame warped in any pass of
  its rendering loop stands in the source at a position of at least 1: the first source
  frame, which seeded the detector, is never warped or written. The working height and
  width are those of the frame popped before the loop plus twice the border: that frame
  is the first one while the queue still holds it, and a later one of the same video
  once the full queue has dropped the first.
\<close>

theorem first_frame_never_emitted:
  "(src \<noteq> [] \<longrightarrow>
      (\<exists>new. emitted (final_state (stabilize D src n mf bt bs lf False s)) = emitted s @ new \<and>
         length new <
           length src - length (vid_cap (final_state (stabilize D src n mf bt bs lf False s))))) \<and>
   (\<forall>s1 c pf0 s2 pf g s3 pf' g' s4.
      priv_init_trajectory D n mf False (start_run src n s) = Inr s1 \<longrightarrow>
      apply_setup mf n bt bs lf s1 = Inr (c, pf0, s2) \<longrightarrow>
      visited D c (pf0, True, s2) (pf, g, s3) \<longrightarrow>
      apply_body D c pf s3 = Inr (Next pf' g' s4) \<longrightarrow>
      (\<exists>sr i frame_i ti st.
         apply_read D c s3 = Inr (g', sr) \<and> take_next sr = Inr (i, frame_i, ti, st) \<and>
         1 \<le> pos src sr \<and> pos src sr < length src \<and> frame_i = src ! pos src sr \<and>
         s4 = write_frame (fst (layer c i (warp_frame c frame_i (build_transform ti)) pf)) st) \<and>
      pos src s1 < length src \<and> pf0 = src ! pos src s1 \<and>
      h_dim c = fst (shape pf0) + 2 * border_size c \<and>
      w_dim c = snd (shape pf0) + 2 * border_size c)"
proof -
  let ?f = "final_state (stabilize D src n mf bt bs lf False s)"
  have first: "\<exists>new. emitted ?f = emitted s @ new \<and>
      length new < length src - length (vid_cap ?f)" if "src \<noteq> []"
  proof -
  from stabilize_final [OF that, of s D n mf bt bs lf]
  have t: "take (length (emitted s)) (emitted ?f) = emitted s"
    and l: "length (emitted ?f) < length (emitted s) + (length src - length (vid_cap ?f))"
    by (simp_all add: emitted_below_def)
  have "emitted ?f = emitted s @ drop (length (emitted s)) (emitted ?f)"
    using t by (metis append_take_drop_id)
  moreover have "length (drop (length (emitted s)) (emitted ?f)) < length src - length (vid_cap ?f)"
    using l take_length_le [OF t] by simp
  ultimately show ?thesis
    by blast
  qed
  have second: "(\<exists>sr i frame_i ti st.
         apply_read D c s3 = Inr (g', sr) \<and> take_next sr = Inr (i, frame_i, ti, st) \<and>
         1 \<le> pos src sr \<and> pos src sr < length src \<and> frame_i = src ! pos src sr \<and>
         s4 = write_frame (fst (layer c i (warp_frame c frame_i (build_transform ti)) pf)) st) \<and>
      pos src s1 < length src \<and> pf0 = src ! pos src s1 \<and>
      h_dim c = fst (shape pf0) + 2 * border_size c \<and>
      w_dim c = snd (shape pf0) + 2 * border_size c"
    if i: "priv_init_trajectory D n mf False (start_run src n s) = Inr s1"
      and a: "apply_setup mf n bt bs lf s1 = Inr (c, pf0, s2)"
      and v: "visited D c (pf0, True, s2) (pf, g, s3)"
      and b: "apply_body D c pf s3 = Inr (Next pf' g' s4)"
    for s1 c pf0 s2 pf g s3 pf' g' s4
  proof -
  from priv_init_trajectory_window [of src "start_run src n s" D n mf False s1] i
    start_run_window [of src n s]
  have "window_of src s1" by simp
  from apply_setup_window [OF this a]
  have w2: "window_of src s2" "1 \<le> pos src s2"
    and p0: "pos src s1 < length src" "pf0 = src ! pos src s1" by simp_all
  from w2 have "pass_inv (emitted s2) src s2"
    by (simp add: pass_inv_def emitted_below_def)
  from visited_pass_inv [OF v, of "emitted s2" src] this w2(2)
  have w3: "window_of src s3" "1 \<le> pos src s3" by (simp_all add: pass_inv_def)
  from b obtain sr i frame_i ti st where
    r: "apply_read D c s3 = Inr (g', sr)" and t: "take_next sr = Inr (i, frame_i, ti, st)"
    and s4: "s4 = write_frame (fst (layer c i (warp_frame c frame_i (build_transform ti)) pf)) st"
    by (rule apply_body_Next)
  note wr = apply_read_window [OF w3(1) r]
  then have "window_of src sr" by simp
  note wt = take_next_window [OF this t]
  have "1 \<le> pos src sr" using wr w3(2) by simp
  with r t s4 wt
  have pass: "\<exists>sr i frame_i ti st.
         apply_read D c s3 = Inr (g', sr) \<and> take_next sr = Inr (i, frame_i, ti, st) \<and>
         1 \<le> pos src sr \<and> pos src sr < length src \<and> frame_i = src ! pos src sr \<and>
         s4 = write_frame (fst (layer c i (warp_frame c frame_i (build_transform ti)) pf)) st"
    by blast
  have dims: "h_dim c = fst (shape pf0) + 2 * border_size c \<and>
      w_dim c = snd (shape pf0) + 2 * border_size c"
    using apply_setup_config [OF a] by simp
  from pass p0 dims show ?thesis
    by blast
  qed
  from first second show ?thesis by blast
qed

theorem first_frame_never_emitted_witness:
  "length (emitted (final_state
      (stabilize (fixed_fit (Some pan)) [F 0, F 1, F 2, F 3] 2 \<infinity> ''black'' 0 None False
         init_vidstab))) = 2 \<and>
   vid_cap (final_state
      (stabilize (fixed_fit (Some pan)) [F 0, F 1, F 2, F 3] 2 \<infinity> ''black'' 0 None False
         init_vidstab)) = [] \<and>
   (\<exists>s1 s2 s4 sr st.
      priv_init_trajectory (fixed_fit (Some pan)) 2 \<infinity> False pan_start = Inr s1 \<and>
      apply_setup \<infinity> 2 ''black'' 0 None s1 = Inr (pan_config, F 1, s2) \<and>
      apply_body (fixed_fit (Some pan)) pan_config (F 1) s2 = Inr (Next (F 1) True s4) \<and>
      apply_read (fixed_fit (Some pan)) pan_config s2 = Inr (True, sr) \<and>
      take_next sr = Inr (1, F 2, (1 / 2, 1, 0), st) \<and> pos [F 0, F 1, F 2, F 3] sr = 2)"
proof -
  let ?D = "fixed_fit (Some pan)"
  let ?src = "[F 0, F 1, F 2, F 3]"
  let ?s1 = "projr (priv_init_trajectory ?D 2 \<infinity> False pan_start)"
  let ?s2 = "snd (snd (projr (apply_setup \<infinity> 2 ''black'' 0 None ?s1)))"
  let ?s4 = "case projr (apply_body ?D pan_config (F 1) ?s2) of Next pf g s \<Rightarrow> s | Break s \<Rightarrow> s"
  have 1: "priv_init_trajectory ?D 2 \<infinity> False (start_run ?src 2 init_vidstab) = Inr ?s1"
    by (simp add: run_defs pan_def pan_start_def)
  have 2: "apply_setup \<infinity> 2 ''black'' 0 None ?s1 = Inr (pan_config, F 1, ?s2)"
    by (simp add: run_defs pan_def pan_start_def pan_config_def)
  have 4: "apply_body ?D pan_config (F 1) ?s2 = Inr (Next (F 1) True ?s4)"
    by (simp add: run_defs pan_def pan_start_def pan_config_def)
  have ne: "?src \<noteq> []" by simp
  note inst = first_frame_never_emitted [of ?src ?D 2 \<infinity> "''black''" 0 None init_vidstab]
  from inst 1 2 4 visited.start [of ?D pan_config "(F 1, True, ?s2)"]
  obtain sr i frame_i ti st where
    r: "apply_read ?D pan_config ?s2 = Inr (True, sr)" and
    t: "take_next sr = Inr (i, frame_i, ti, st)"
    by blast
  have sr: "sr = snd (projr (apply_read ?D pan_config ?s2))"
    using r by simp
  have v: "(\<exists>st. take_next sr = Inr (1, F 2, (1 / 2, 1, 0), st)) \<and> pos ?src sr = 2"
    unfolding sr by (simp add: run_defs pan_def pan_start_def pan_config_def pos_def)
  have e: "length (emitted (final_state
      (stabilize ?D ?src 2 \<infinity> ''black'' 0 None False init_vidstab))) = 2 \<and>
     vid_cap (final_state
      (stabilize ?D ?src 2 \<infinity> ''black'' 0 None False init_vidstab)) = []"
    by (simp add: run_defs pan_def)
  have i1: "priv_init_trajectory ?D 2 \<infinity> False pan_start = Inr ?s1"
    using 1 by (simp add: pan_start_def)
  from i1 2 4 r v e show ?thesis by blast
qed

end
